theory Spec2Isabelle
  imports Main "HOL-Library.AList"
begin

section \<open>Run-configuration resolution of bcbio (pipeline/run\_info.py)\<close>

text \<open>
  A shallow embedding of the sample-configuration normalisation and validation functions of
  \<^verbatim>\<open>bcbio/pipeline/run_info.py\<close>. Values loaded from the YAML run sheet are
  dynamically typed; they are modelled by one datatype. A Python dictionary is an association
  list whose order is the iteration order of the dictionary; \<^verbatim>\<open>d[k] = v\<close> is
  \<^const>\<open>AList.update\<close> (replace the entry in place, or append a new one) and
  \<^verbatim>\<open>d.get(k)\<close> is \<^const>\<open>map_of\<close>. Dictionary keys are strings. Floats and
  tuples, which a YAML run sheet read by \<^verbatim>\<open>yaml.load\<close> holds only in places this
  development does not look at, are left out of the datatype.
\<close>

subsection \<open>Values, truthiness, strings\<close>

datatype val =
    VNone
  | VBool bool
  | VInt int
  | VStr string
  | VList "val list"
  | VDict "(string \<times> val) list"

type_synonym dict = "(string \<times> val) list"

text \<open>Python's truth value of an object (\<^verbatim>\<open>if val:\<close>, \<^verbatim>\<open>not val\<close>).\<close>

fun truthy :: "val \<Rightarrow> bool" where
  "truthy VNone = False"
| "truthy (VBool b) = b"
| "truthy (VInt i) = (i \<noteq> 0)"
| "truthy (VStr s) = (s \<noteq> [])"
| "truthy (VList xs) = (xs \<noteq> [])"
| "truthy (VDict kvs) = (kvs \<noteq> [])"

fun is_basestring :: "val \<Rightarrow> bool" where
  "is_basestring (VStr s) = True"
| "is_basestring v = False"

fun is_list :: "val \<Rightarrow> bool" where
  "is_list (VList xs) = True"
| "is_list v = False"

fun is_dict :: "val \<Rightarrow> bool" where
  "is_dict (VDict kvs) = True"
| "is_dict v = False"

text \<open>\<^verbatim>\<open>str.lower()\<close>: the letters A to Z are mapped to a to z, every other
  character is kept.\<close>

definition lower_char :: "char \<Rightarrow> char" where
  "lower_char c =
     (case map_of (zip ''ABCDEFGHIJKLMNOPQRSTUVWXYZ'' ''abcdefghijklmnopqrstuvwxyz'') c of
        Some d \<Rightarrow> d
      | None \<Rightarrow> c)"

definition lower :: "string \<Rightarrow> string" where
  "lower s = map lower_char s"

text \<open>\<^verbatim>\<open>x.endswith(suffix)\<close>.\<close>

definition endswith :: "string \<Rightarrow> string \<Rightarrow> bool" where
  "endswith s suf = (take (length suf) (rev s) = rev suf)"

text \<open>
  \<^verbatim>\<open>toolz.get_in(keys, coll)\<close> with string keys and the default \<^verbatim>\<open>None\<close>:
  it folds \<^verbatim>\<open>operator.getitem\<close> over the keys and returns the default when a
  \<^verbatim>\<open>KeyError\<close>, \<^verbatim>\<open>IndexError\<close> or \<^verbatim>\<open>TypeError\<close> is raised, which is what
  indexing anything but a dictionary with a string key does.
\<close>

fun getitem :: "val \<Rightarrow> string \<Rightarrow> val option" where
  "getitem (VDict kvs) k = map_of kvs k"
| "getitem v k = None"

fun get_in_opt :: "string list \<Rightarrow> val \<Rightarrow> val option" where
  "get_in_opt [] coll = Some coll"
| "get_in_opt (k # ks) coll =
     (case getitem coll k of None \<Rightarrow> None | Some v \<Rightarrow> get_in_opt ks v)"

definition get_in :: "string list \<Rightarrow> val \<Rightarrow> val" where
  "get_in ks coll = (case get_in_opt ks coll of None \<Rightarrow> VNone | Some v \<Rightarrow> v)"

subsection \<open>Cleaning the caller fields of the algorithm section\<close>

text \<open>
  The body of the loop of \<^verbatim>\<open>_clean_algorithm\<close> for a truthy value: a string becomes a
  one-element list; a list is replaced by \<^verbatim>\<open>False\<close> when
  \<^verbatim>\<open>len(val) == 1 and not val[0] or (isinstance(val[0], basestring) and
  val[0].lower() in ["none", "false"])\<close>, where \<^verbatim>\<open>and\<close> binds tighter than
  \<^verbatim>\<open>or\<close>. The list is never empty here: an empty list is not truthy.
\<close>

fun clean_caller_list :: "val \<Rightarrow> val" where
  "clean_caller_list (VList (v0 # rest)) =
     (if (length (v0 # rest) = 1 \<and> \<not> truthy v0)
         \<or> (case v0 of VStr s \<Rightarrow> lower s \<in> set [''none'', ''false''] | _ \<Rightarrow> False)
      then VBool False
      else VList (v0 # rest))"
| "clean_caller_list v = v"

definition clean_caller_val :: "val \<Rightarrow> val" where
  "clean_caller_val v =
     clean_caller_list (if \<not> is_list v \<and> is_basestring v then VList [v] else v)"

text \<open>\<^verbatim>\<open>data["algorithm"][key] = val\<close>. It is only reached when
  \<^verbatim>\<open>data["algorithm"]\<close> is a dictionary, since the value read through it was truthy.\<close>

definition set_algorithm :: "dict \<Rightarrow> string \<Rightarrow> val \<Rightarrow> dict" where
  "set_algorithm data key v =
     (case map_of data ''algorithm'' of
        Some (VDict alg) \<Rightarrow> AList.update ''algorithm'' (VDict (AList.update key v alg)) data
      | _ \<Rightarrow> data)"

definition clean_algorithm_key :: "dict \<Rightarrow> string \<Rightarrow> dict" where
  "clean_algorithm_key data key =
     (let v = get_in [''algorithm'', key] (VDict data)
      in if truthy v then set_algorithm data key (clean_caller_val v) else data)"

definition clean_algorithm :: "dict \<Rightarrow> dict" where
  "clean_algorithm data =
     foldl clean_algorithm_key data [''variantcaller'', ''jointcaller'', ''svcaller'']"

subsection \<open>Errors\<close>

text \<open>
  Every exception the modelled functions raise is a value. The \<^verbatim>\<open>ValueError\<close>s carry
  the values their message is formatted from instead of the formatted text.
\<close>

datatype error =
    KeyError string
  | TypeError string
  | AttributeError string
  | ValueError_Duplicate string "val list" "val list"
  | ValueError_AlgorithmValues val "string list"
  | ValueError_NotFound string "string option list"
  | ValueError_Files string val "string list"
  | ValueError_SingleItem string val

subsection \<open>Duplicate detection\<close>

text \<open>
  \<^verbatim>\<open>itertools.groupby\<close> over a sequence of keys: a new group starts whenever the key
  differs from the key of the running group, so only neighbouring equal keys share a group.
  \<open>groupby_from k grp ys\<close> is the iterator with the running group \<open>grp\<close> of key \<open>k\<close>.
\<close>

fun groupby_from :: "'a \<Rightarrow> 'a list \<Rightarrow> 'a list \<Rightarrow> ('a \<times> 'a list) list" where
  "groupby_from k grp [] = [(k, grp)]"
| "groupby_from k grp (y # ys) =
     (if y = k then groupby_from k (grp @ [y]) ys else (k, grp) # groupby_from y [y] ys)"

fun groupby :: "'a list \<Rightarrow> ('a \<times> 'a list) list" where
  "groupby [] = []"
| "groupby (y # ys) = groupby_from y [y] ys"

text \<open>\<^verbatim>\<open>[x[attr] for x in xs]\<close>, a \<^verbatim>\<open>KeyError\<close> when an entry lacks the key.\<close>

fun getitems :: "string \<Rightarrow> dict list \<Rightarrow> error + val list" where
  "getitems attr [] = Inr []"
| "getitems attr (x # xs) =
     (case map_of x attr of
        None \<Rightarrow> Inl (KeyError attr)
      | Some v \<Rightarrow> (case getitems attr xs of Inl e \<Rightarrow> Inl e | Inr vs \<Rightarrow> Inr (v # vs)))"

text \<open>
  \<^verbatim>\<open>_check_for_duplicates(xs, attr, check_fn=None)\<close>. The values compared are the
  \<^verbatim>\<open>lane\<close> and \<^verbatim>\<open>description\<close> strings, on which Python's \<^verbatim>\<open>==\<close> is equality.
  \<^verbatim>\<open>_check_sample_config\<close> calls it for \<^verbatim>\<open>"lane"\<close> and for \<^verbatim>\<open>"description"\<close>, both
  times without \<^verbatim>\<open>check_fn\<close>.
\<close>

definition check_for_duplicates ::
  "dict list \<Rightarrow> string \<Rightarrow> (dict list \<Rightarrow> bool) option \<Rightarrow> error + unit" where
  "check_for_duplicates xs attr check_fn =
     (case getitems attr xs of
        Inl e \<Rightarrow> Inl e
      | Inr keys \<Rightarrow>
          let dups = map fst (filter (\<lambda>(key, vals). length vals > 1) (groupby keys))
          in if length dups > 0 then
               let psamples = map fst (filter (\<lambda>(x, key). key \<in> set dups) (zip xs keys))
               in if (case check_fn of None \<Rightarrow> False | Some f \<Rightarrow> f psamples) then Inr ()
                  else (case getitems ''description'' psamples of
                          Inl e \<Rightarrow> Inl e
                        | Inr descrs \<Rightarrow> Inl (ValueError_Duplicate attr dups descrs))
             else Inr ())"

subsection \<open>Boolean values in the algorithm section\<close>

definition ALG_ALLOW_BOOLEANS :: "string list" where
  "ALG_ALLOW_BOOLEANS =
     [''merge_bamprep'', ''mark_duplicates'', ''remove_lcr'',
      ''clinical_reporting'', ''transcriptome_align'',
      ''fusion_mode'', ''assemble_transcripts'', ''trim_reads'',
      ''recalibrate'', ''realign'', ''cwl_reporting'', ''save_diskspace'']"

definition ALG_ALLOW_FALSE :: "string list" where
  "ALG_ALLOW_FALSE =
     [''aligner'', ''align_split_size'', ''bam_clean'', ''bam_sort'',
      ''effects'', ''phasing'', ''mixup_check'', ''indelcaller'',
      ''variantcaller'', ''positional_umi'', ''maxcov_downsample'', ''preseq'']"

text \<open>The problems one entry of the algorithm section contributes: none or one.\<close>

definition value_problems :: "string \<times> val \<Rightarrow> string list" where
  "value_problems kv =
     (case kv of (k, v) \<Rightarrow>
        if v = VBool True \<and> k \<notin> set ALG_ALLOW_BOOLEANS then [k @ '' set as true'']
        else if v = VBool False \<and> (k \<notin> set ALG_ALLOW_BOOLEANS \<and> k \<notin> set ALG_ALLOW_FALSE)
          then [k @ '' set as false'']
        else [])"

text \<open>\<^verbatim>\<open>_check_algorithm_values(item)\<close>; \<^verbatim>\<open>item.get("algorithm", {}).items()\<close> needs a
  dictionary, and the message needs \<^verbatim>\<open>item["description"]\<close>.\<close>

definition check_algorithm_values :: "dict \<Rightarrow> error + unit" where
  "check_algorithm_values item =
     (case (case map_of item ''algorithm'' of
              None \<Rightarrow> Inr []
            | Some (VDict alg) \<Rightarrow> Inr alg
            | Some _ \<Rightarrow> Inl (AttributeError ''items'')) of
        Inl e \<Rightarrow> Inl e
      | Inr alg \<Rightarrow>
          let problems = concat (map value_problems alg)
          in if length problems > 0 then
               (case map_of item ''description'' of
                  None \<Rightarrow> Inl (KeyError ''description'')
                | Some d \<Rightarrow> Inl (ValueError_AlgorithmValues d problems))
             else Inr ())"

subsection \<open>Path resolution\<close>

text \<open>
  The functions of the operating system and of other modules that \<^verbatim>\<open>_file_to_abs\<close> and
  \<^verbatim>\<open>_normalize_files\<close> call are parameters, over a file-system state \<open>'fs\<close>:
  \<^verbatim>\<open>os.path.isabs\<close>, \<^verbatim>\<open>objectstore.is_remote\<close>,
  \<^verbatim>\<open>os.path.normpath(os.path.join(dname, x))\<close>, \<^verbatim>\<open>os.path.exists\<close>,
  \<^verbatim>\<open>utils.safe_makedir\<close>, \<^verbatim>\<open>os.getcwd()\<close> and \<^verbatim>\<open>flowcell.get_fastq_dir\<close>.
\<close>

record 'fs os_env =
  isabs :: "string \<Rightarrow> bool"
  is_remote :: "string \<Rightarrow> bool"
  join_normpath :: "string \<Rightarrow> string \<Rightarrow> string"
  path_exists :: "'fs \<Rightarrow> string \<Rightarrow> bool"
  safe_makedir :: "string \<Rightarrow> 'fs \<Rightarrow> 'fs"
  getcwd :: string
  get_fastq_dir :: "string \<Rightarrow> string"

text \<open>\<^verbatim>\<open>if dname:\<close> for a directory that is \<^verbatim>\<open>None\<close> or a string.\<close>

fun truthy_dir :: "string option \<Rightarrow> bool" where
  "truthy_dir None = False"
| "truthy_dir (Some d) = (d \<noteq> [])"

text \<open>
  The \<^verbatim>\<open>for dname in dnames\<close> loop of \<^verbatim>\<open>_file_to_abs\<close>: the result is the path
  returned with the file system after the call, or \<open>None\<close> when the loop runs to its end.
\<close>

fun file_to_abs_loop ::
  "'fs os_env \<Rightarrow> 'fs \<Rightarrow> string \<Rightarrow> string option list \<Rightarrow> bool \<Rightarrow> (string \<times> 'fs) option" where
  "file_to_abs_loop env fs x [] makedir = None"
| "file_to_abs_loop env fs x (dname # dnames) makedir =
     (case dname of
        Some d \<Rightarrow>
          if truthy_dir dname then
            let normx = join_normpath env d x
            in if path_exists env fs normx then Some (normx, fs)
               else if makedir then Some (normx, safe_makedir env normx fs)
               else file_to_abs_loop env fs x dnames makedir
          else file_to_abs_loop env fs x dnames makedir
      | None \<Rightarrow> file_to_abs_loop env fs x dnames makedir)"

text \<open>\<^verbatim>\<open>_file_to_abs(x, dnames, makedir=False)\<close> for \<open>x\<close> that is \<^verbatim>\<open>None\<close> or a
  string; the returned \<open>None\<close> is Python's \<^verbatim>\<open>None\<close>.\<close>

definition file_to_abs ::
  "'fs os_env \<Rightarrow> 'fs \<Rightarrow> string option \<Rightarrow> string option list \<Rightarrow> bool
     \<Rightarrow> (error + string option) \<times> 'fs" where
  "file_to_abs env fs x dnames makedir =
     (case x of
        None \<Rightarrow> (Inr None, fs)
      | Some s \<Rightarrow>
          if isabs env s then (Inr (Some s), fs)
          else if is_remote env s then (Inr (Some s), fs)
          else if lower s = ''none'' then (Inr None, fs)
          else (case file_to_abs_loop env fs s dnames makedir of
                  Some (normx, fs') \<Rightarrow> (Inr (Some normx), fs')
                | None \<Rightarrow> (Inl (ValueError_NotFound s dnames), fs)))"

text \<open>
  An environment to run the functions in: POSIX paths, no remote stores, a file system that
  is the list of the paths that exist, the working directory \<^verbatim>\<open>/work\<close>.
\<close>

definition example_env :: "string list os_env" where
  "example_env =
     \<lparr> isabs = (\<lambda>s. take 1 s = ''/''),
       is_remote = (\<lambda>s. False),
       join_normpath = (\<lambda>d x. d @ ''/'' @ x),
       path_exists = (\<lambda>fs p. p \<in> set fs),
       safe_makedir = (\<lambda>p fs. p # fs),
       getcwd = ''/work'',
       get_fastq_dir = (\<lambda>d. d @ ''/fastq'') \<rparr>"

subsection \<open>The files of a sample\<close>

text \<open>
  \<^verbatim>\<open>_sanity_check_files(item, files)\<close>. The set \<^verbatim>\<open>file_types\<close> is a duplicate-free
  list; \<^verbatim>\<open>file_types.pop()\<close> raises \<^verbatim>\<open>KeyError\<close> on the empty set and returns an
  arbitrary element otherwise, so which of two elements it returns is the parameter
  \<open>pop_bam\<close>.
\<close>

definition file_types_of :: "string list \<Rightarrow> string list" where
  "file_types_of files =
     remdups (map (\<lambda>x. if endswith x ''.bam'' then ''bam'' else ''fastq'')
                  (filter (\<lambda>x. x \<noteq> []) files))"

definition raise_files_msg :: "string option \<Rightarrow> dict \<Rightarrow> string list \<Rightarrow> error + unit" where
  "raise_files_msg msg item files =
     (case msg of
        Some m \<Rightarrow>
          Inl (ValueError_Files m
                 (case map_of item ''description'' of None \<Rightarrow> VStr [] | Some d \<Rightarrow> d) files)
      | None \<Rightarrow> Inr ())"

text \<open>\<^verbatim>\<open>item["analysis"].lower() != "scrna-seq"\<close>.\<close>

definition analysis_not_scrna :: "dict \<Rightarrow> error + bool" where
  "analysis_not_scrna item =
     (case map_of item ''analysis'' of
        None \<Rightarrow> Inl (KeyError ''analysis'')
      | Some (VStr a) \<Rightarrow> Inr (lower a \<noteq> ''scrna-seq'')
      | Some _ \<Rightarrow> Inl (AttributeError ''lower''))"

definition sanity_check_files :: "bool \<Rightarrow> dict \<Rightarrow> string list \<Rightarrow> error + unit" where
  "sanity_check_files pop_bam item files =
     (let file_types = file_types_of files;
          msg0 = (if length file_types > 1
                  then Some ''Found multiple file types (BAM and fastq)'' else None)
      in case file_types of
           [] \<Rightarrow> Inl (KeyError ''pop from an empty set'')
         | t # ts \<Rightarrow>
             let file_type = (if ts = [] then t else if pop_bam then ''bam'' else ''fastq'')
             in if file_type = ''bam'' then
                  raise_files_msg
                    (if length files \<noteq> 1 then Some ''Expect a single BAM file input as input''
                     else msg0) item files
                else if file_type = ''fastq'' then
                  (case (if length files \<notin> set [1, 2] then analysis_not_scrna item
                         else Inr False) of
                     Inl e \<Rightarrow> Inl e
                   | Inr c \<Rightarrow>
                       let msg1 = (if c
                                   then Some ''Expect either 1 (single end) or 2 (paired end) fastq inputs''
                                   else msg0);
                           msg2 = (if length files = 2 \<and> files ! 0 = files ! 1
                                   then Some ''Expect both fastq files to not be the same''
                                   else msg1)
                       in raise_files_msg msg2 item files)
                else raise_files_msg msg0 item files)"

text \<open>
  Iterating over the \<^verbatim>\<open>files\<close> value of a sample: a string is wrapped in a list, a list
  yields its elements, a dictionary its keys; a number or a boolean is not iterable.
\<close>

fun files_elements :: "val \<Rightarrow> error + val list" where
  "files_elements (VStr s) = Inr [VStr s]"
| "files_elements (VList xs) = Inr xs"
| "files_elements (VDict kvs) = Inr (map (\<lambda>kv. VStr (fst kv)) kvs)"
| "files_elements v = Inl (TypeError ''object is not iterable'')"

text \<open>
  \<^verbatim>\<open>[_file_to_abs(x, dnames) for x in files]\<close>: \<^verbatim>\<open>None\<close> and strings are resolved,
  \<^verbatim>\<open>os.path.isabs\<close> raises on any other value.
\<close>

fun file_to_abs_all ::
  "'fs os_env \<Rightarrow> 'fs \<Rightarrow> val list \<Rightarrow> string option list \<Rightarrow> (error + string option list) \<times> 'fs" where
  "file_to_abs_all env fs [] dnames = (Inr [], fs)"
| "file_to_abs_all env fs (x # xs) dnames =
     (case (case x of
              VNone \<Rightarrow> Inr None
            | VStr s \<Rightarrow> Inr (Some s)
            | _ \<Rightarrow> Inl (AttributeError ''startswith'')) of
        Inl e \<Rightarrow> (Inl e, fs)
      | Inr p \<Rightarrow>
          (case file_to_abs env fs p dnames False of
             (Inl e, fs') \<Rightarrow> (Inl e, fs')
           | (Inr r, fs') \<Rightarrow>
               (case file_to_abs_all env fs' xs dnames of
                  (Inl e, fs'') \<Rightarrow> (Inl e, fs'')
                | (Inr rs, fs'') \<Rightarrow> (Inr (r # rs), fs''))))"

text \<open>\<^verbatim>\<open>[x for x in files if x]\<close> on resolved paths.\<close>

fun truthy_paths :: "string option list \<Rightarrow> string list" where
  "truthy_paths [] = []"
| "truthy_paths (None # ps) = truthy_paths ps"
| "truthy_paths (Some p # ps) = (if p \<noteq> [] then p # truthy_paths ps else truthy_paths ps)"

text \<open>\<^verbatim>\<open>_normalize_files(item, fc_dir=None)\<close>.\<close>

definition normalize_files ::
  "'fs os_env \<Rightarrow> 'fs \<Rightarrow> bool \<Rightarrow> dict \<Rightarrow> string option \<Rightarrow> (error + dict) \<times> 'fs" where
  "normalize_files env fs pop_bam item fc_dir =
     (let files = (case map_of item ''files'' of None \<Rightarrow> VNone | Some v \<Rightarrow> v)
      in if truthy files then
           (case files_elements files of
              Inl e \<Rightarrow> (Inl e, fs)
            | Inr xs \<Rightarrow>
                let fastq_dir = (case fc_dir of
                                   Some d \<Rightarrow> if truthy_dir fc_dir then get_fastq_dir env d
                                             else getcwd env
                                 | None \<Rightarrow> getcwd env)
                in (case file_to_abs_all env fs xs [Some (getcwd env), fc_dir, Some fastq_dir] of
                      (Inl e, fs') \<Rightarrow> (Inl e, fs')
                    | (Inr resolved, fs') \<Rightarrow>
                        (let kept = truthy_paths resolved
                         in (case sanity_check_files pop_bam item kept of
                               Inl e \<Rightarrow> (Inl e, fs')
                             | Inr u \<Rightarrow>
                                 (Inr (AList.update ''files'' (VList (map VStr kept)) item),
                                  fs')))))
         else (Inr item, fs))"

subsection \<open>Merging the global resources\<close>

text \<open>
  The loop at the end of the per-sample part of \<^verbatim>\<open>_run_info_from_yaml\<close> that adds the
  global \<^verbatim>\<open>resources\<close> section to \<^verbatim>\<open>item["resources"]\<close>. The resources of a sample
  map a program name to a dictionary; the global section maps a program name to a dictionary
  or to \<^verbatim>\<open>None\<close>. An absent \<^verbatim>\<open>item["resources"]\<close> is the argument \<open>None\<close>.
\<close>

type_synonym resources = "(string \<times> dict) list"

text \<open>\<^verbatim>\<open>item["resources"][prog][key] = val\<close>; the program is present when this runs.\<close>

definition set_resource :: "resources \<Rightarrow> string \<Rightarrow> string \<Rightarrow> val \<Rightarrow> resources" where
  "set_resource r prog key v =
     (case map_of r prog of
        Some d \<Rightarrow> AList.update prog (AList.update key v d) r
      | None \<Rightarrow> r)"

definition add_prog_resources :: "resources \<Rightarrow> string \<times> dict option \<Rightarrow> resources" where
  "add_prog_resources r entry =
     (case entry of (prog, pkvs) \<Rightarrow>
        let r1 = (if map_of r prog = None then AList.update prog [] r else r)
        in (case pkvs of
              None \<Rightarrow> r1
            | Some kvs \<Rightarrow> foldl (\<lambda>r2 kv. set_resource r2 prog (fst kv) (snd kv)) r1 kvs))"

definition add_global_resources ::
  "resources option \<Rightarrow> (string \<times> dict option) list \<Rightarrow> resources" where
  "add_global_resources item_resources global_resources =
     foldl add_prog_resources (case item_resources of None \<Rightarrow> [] | Some r \<Rightarrow> r)
       global_resources"

text \<open>\<^verbatim>\<open>resources[prog][key]\<close> read without raising.\<close>

definition resource_lookup :: "resources \<Rightarrow> string \<Rightarrow> string \<Rightarrow> val option" where
  "resource_lookup r prog key =
     (case map_of r prog of None \<Rightarrow> None | Some d \<Rightarrow> map_of d key)"

subsection \<open>Substituting global variables\<close>

text \<open>What the dictionary branch of \<^verbatim>\<open>_replace_global_vars\<close> stores for one value.\<close>

definition replace_value :: "dict \<Rightarrow> val \<Rightarrow> val" where
  "replace_value global_vars v =
     (case v of
        VStr s \<Rightarrow> (case map_of global_vars s of Some g \<Rightarrow> g | None \<Rightarrow> v)
      | _ \<Rightarrow> v)"

text \<open>
  \<^verbatim>\<open>_replace_global_vars(xs, global_vars)\<close>. The list branch calls the function with one
  argument for each element, which raises \<^verbatim>\<open>TypeError\<close> at the first element; the
  comprehension over an empty list calls nothing.
\<close>

fun replace_global_vars :: "val \<Rightarrow> dict \<Rightarrow> error + val" where
  "replace_global_vars (VList xs) global_vars =
     (if xs = [] then Inr (VList [])
      else Inl (TypeError ''_replace_global_vars() takes exactly 2 arguments (1 given)''))"
| "replace_global_vars (VDict kvs) global_vars =
     Inr (VDict (foldl (\<lambda>final kv. AList.update (fst kv) (replace_value global_vars (snd kv)) final)
                   [] kvs))"
| "replace_global_vars xs global_vars = Inr xs"

subsection \<open>Algorithm defaults and coercion\<close>

text \<open>
  The \<^verbatim>\<open>defaults\<close> dictionary, its entries in the order of the source text;
  \<open>aligner\<close> is \<^verbatim>\<open>algorithm.get("aligner")\<close>. The order in which
  \<^verbatim>\<open>defaults.items()\<close> yields them only decides where absent keys are appended.
\<close>

definition algorithm_defaults :: "val \<Rightarrow> dict" where
  "algorithm_defaults aligner =
     [(''archive'', VNone),
      (''tools_off'', VList []),
      (''tools_on'', VList []),
      (''qc'', VList []),
      (''trim_reads'', VBool False),
      (''adapters'', VList []),
      (''effects'', VStr ''snpeff''),
      (''quality_format'', VStr ''standard''),
      (''align_split_size'', VNone),
      (''bam_clean'', VBool False),
      (''nomap_split_size'', VInt 250),
      (''nomap_split_targets'', VInt 200),
      (''mark_duplicates'', VBool (if \<not> truthy aligner then False else True)),
      (''coverage_interval'', VNone),
      (''recalibrate'', VBool False),
      (''realign'', VBool False),
      (''variant_regions'', VNone),
      (''validate'', VNone),
      (''validate_regions'', VNone)]"

definition convert_to_list :: "string list" where
  "convert_to_list =
     [''tools_off'', ''tools_on'', ''hetcaller'', ''variantcaller'', ''qc'', ''disambiguate'',
      ''vcfanno'', ''adapters'', ''custom_trim'']"

definition convert_to_single :: "string list" where
  "convert_to_single = [''hlacaller'', ''indelcaller'', ''validate_method'']"

text \<open>\<^verbatim>\<open>for k, v in defaults.items(): if k not in algorithm: algorithm[k] = v\<close>.\<close>

definition add_default :: "dict \<Rightarrow> string \<times> val \<Rightarrow> dict" where
  "add_default algorithm kv =
     (if map_of algorithm (fst kv) = None then AList.update (fst kv) (snd kv) algorithm
      else algorithm)"

text \<open>The dictionary \<^verbatim>\<open>new\<close> built from a dictionary-valued input.\<close>

definition listify_inner :: "val \<Rightarrow> val" where
  "listify_inner innerv =
     (if truthy innerv \<and> \<not> is_list innerv \<and> \<not> is_dict innerv then VList [innerv] else innerv)"

definition listify_dict :: "dict \<Rightarrow> dict" where
  "listify_dict kvs =
     foldl (\<lambda>new kv. AList.update (fst kv) (listify_inner (snd kv)) new) [] kvs"

text \<open>One round of the second loop, for the entry \<open>(k, v)\<close> of the dictionary.\<close>

definition coerce_entry :: "dict \<Rightarrow> string \<times> val \<Rightarrow> error + dict" where
  "coerce_entry algorithm kv =
     (case kv of (k, v) \<Rightarrow>
        if k \<in> set convert_to_list then
          (if truthy v \<and> \<not> is_list v \<and> \<not> is_dict v then Inr (AList.update k (VList [v]) algorithm)
           else if truthy v \<and> \<not> is_list v \<and> is_dict v then
             (case v of
                VDict inner \<Rightarrow> Inr (AList.update k (VDict (listify_dict inner)) algorithm)
              | _ \<Rightarrow> Inr algorithm)
           else if v = VNone then Inr (AList.update k (VList []) algorithm)
           else Inr algorithm)
        else if k \<in> set convert_to_single then
          (if truthy v \<and> \<not> is_basestring v then
             (case v of
                VList [x] \<Rightarrow> Inr (AList.update k x algorithm)
              | _ \<Rightarrow> Inl (ValueError_SingleItem k v))
           else Inr algorithm)
        else Inr algorithm)"

text \<open>The second loop runs over \<^verbatim>\<open>algorithm.items()\<close>, a list made before the loop.\<close>

fun coerce_entries :: "dict \<Rightarrow> (string \<times> val) list \<Rightarrow> error + dict" where
  "coerce_entries algorithm [] = Inr algorithm"
| "coerce_entries algorithm (kv # kvs) =
     (case coerce_entry algorithm kv of
        Inl e \<Rightarrow> Inl e
      | Inr algorithm' \<Rightarrow> coerce_entries algorithm' kvs)"

text \<open>
  \<^verbatim>\<open>_add_algorithm_defaults(algorithm)\<close>. A falsy argument is replaced by the empty
  dictionary; \<^verbatim>\<open>algorithm.get\<close> raises on a truthy argument that is no dictionary.
\<close>

definition add_algorithm_defaults :: "val \<Rightarrow> error + dict" where
  "add_algorithm_defaults algorithm =
     (case (if \<not> truthy algorithm then Inr []
            else (case algorithm of VDict d \<Rightarrow> Inr d | _ \<Rightarrow> Inl (AttributeError ''get''))) of
        Inl e \<Rightarrow> Inl e
      | Inr a0 \<Rightarrow>
          (let defaults = algorithm_defaults
                            (case map_of a0 ''aligner'' of None \<Rightarrow> VNone | Some v \<Rightarrow> v);
               a1 = foldl add_default a0 defaults
           in coerce_entries a1 a1))"

subsection \<open>Normal forms of the algorithm section\<close>

text \<open>
  The shape \<^verbatim>\<open>_add_algorithm_defaults\<close> leaves its entries in. Under a key of
  \<^verbatim>\<open>convert_to_list\<close>: a list, a falsy value other than \<^verbatim>\<open>None\<close>, or a dictionary
  whose values are falsy, lists or dictionaries. Under a key of \<^verbatim>\<open>convert_to_single\<close>: a
  string or a falsy value. A normalized algorithm section has every key of the defaults.
\<close>

definition inner_listified :: "dict \<Rightarrow> bool" where
  "inner_listified inner =
     (distinct (map fst inner)
      \<and> list_all (\<lambda>kv. \<not> truthy (snd kv) \<or> is_list (snd kv) \<or> is_dict (snd kv)) inner)"

fun list_form :: "val \<Rightarrow> bool" where
  "list_form (VList xs) = True"
| "list_form (VDict inner) = inner_listified inner"
| "list_form VNone = False"
| "list_form v = (\<not> truthy v)"

definition single_form :: "val \<Rightarrow> bool" where
  "single_form v = (\<not> truthy v \<or> is_basestring v)"

definition entry_normalized :: "string \<times> val \<Rightarrow> bool" where
  "entry_normalized kv =
     ((fst kv \<in> set convert_to_list \<longrightarrow> list_form (snd kv))
      \<and> (fst kv \<in> set convert_to_single \<longrightarrow> single_form (snd kv)))"

definition algorithm_normalized :: "dict \<Rightarrow> bool" where
  "algorithm_normalized d =
     (distinct (map fst d)
      \<and> list_all (\<lambda>k. map_of d k \<noteq> None) (map fst (algorithm_defaults VNone))
      \<and> list_all entry_normalized d)"

text \<open>
  What a first run may be given: a dictionary has each key once, and a key of
  \<^verbatim>\<open>convert_to_single\<close> that holds a one-element list holds a string or a falsy value
  in it.
\<close>

definition single_items_plain :: "val \<Rightarrow> bool" where
  "single_items_plain algorithm =
     (case algorithm of
        VDict d \<Rightarrow>
          distinct (map fst d)
          \<and> list_all (\<lambda>kv. fst kv \<in> set convert_to_single \<longrightarrow>
                        (case snd kv of VList [x] \<Rightarrow> single_form x | _ \<Rightarrow> True)) d
      | _ \<Rightarrow> True)"

section \<open>Properties\<close>

subsection \<open>Caller fields\<close>

lemma get_in_algorithm:
  "get_in [''algorithm'', k] (VDict data) =
     (case map_of data ''algorithm'' of
        Some (VDict alg) \<Rightarrow> (case map_of alg k of Some v \<Rightarrow> v | None \<Rightarrow> VNone)
      | _ \<Rightarrow> VNone)"
  by (simp add: get_in_def split: option.splits val.splits)

lemma get_in_clean_algorithm_key:
  "get_in [''algorithm'', k'] (VDict (clean_algorithm_key data k)) =
     (if k' = k \<and> truthy (get_in [''algorithm'', k] (VDict data))
      then clean_caller_val (get_in [''algorithm'', k] (VDict data))
      else get_in [''algorithm'', k'] (VDict data))"
  by (auto simp: clean_algorithm_key_def set_algorithm_def get_in_algorithm Let_def update_conv'
      split: option.splits val.splits)

lemma get_in_clean_algorithm:
  "k \<in> set [''variantcaller'', ''jointcaller'', ''svcaller''] \<Longrightarrow>
   get_in [''algorithm'', k] (VDict (clean_algorithm data)) =
     (if truthy (get_in [''algorithm'', k] (VDict data))
      then clean_caller_val (get_in [''algorithm'', k] (VDict data))
      else get_in [''algorithm'', k] (VDict data))"
  by (auto simp: clean_algorithm_def get_in_clean_algorithm_key)

text \<open>
  C7. \<^verbatim>\<open>_clean_algorithm\<close> turns the string \<^verbatim>\<open>"gatk"\<close> under
  \<^verbatim>\<open>algorithm.variantcaller\<close> into the list \<^verbatim>\<open>["gatk"]\<close>, and turns a one-element list
  whose element is falsy, or is a string that lowercases to \<^verbatim>\<open>"none"\<close> or
  \<^verbatim>\<open>"false"\<close>, into the boolean \<^verbatim>\<open>False\<close>.
\<close>

theorem clean_algorithm_variantcaller:
  "(get_in [''algorithm'', ''variantcaller''] (VDict data) = VStr ''gatk'' \<longrightarrow>
      get_in [''algorithm'', ''variantcaller''] (VDict (clean_algorithm data))
        = VList [VStr ''gatk''])
   \<and> (get_in [''algorithm'', ''variantcaller''] (VDict data) = VList [v]
        \<and> (\<not> truthy v \<or> (\<exists>s. v = VStr s \<and> lower s \<in> {''none'', ''false''})) \<longrightarrow>
      get_in [''algorithm'', ''variantcaller''] (VDict (clean_algorithm data)) = VBool False)"
  by (auto simp: get_in_clean_algorithm clean_caller_val_def lower_def lower_char_def)

theorem clean_algorithm_variantcaller_witness:
  "get_in [''algorithm'', ''variantcaller'']
     (VDict (clean_algorithm
        [(''description'', VStr ''s1''),
         (''algorithm'', VDict [(''variantcaller'', VStr ''gatk'')])]))
     = VList [VStr ''gatk'']
   \<and> get_in [''algorithm'', ''variantcaller'']
     (VDict (clean_algorithm
        [(''description'', VStr ''s2''),
         (''algorithm'', VDict [(''variantcaller'', VList [VStr ''none''])])]))
     = VBool False"
proof -
  have h1: "get_in [''algorithm'', ''variantcaller'']
              (VDict [(''description'', VStr ''s1''),
                      (''algorithm'', VDict [(''variantcaller'', VStr ''gatk'')])])
            = VStr ''gatk''"
    by (simp add: get_in_def)
  have h2: "get_in [''algorithm'', ''variantcaller'']
              (VDict [(''description'', VStr ''s2''),
                      (''algorithm'', VDict [(''variantcaller'', VList [VStr ''none''])])])
            = VList [VStr ''none'']
            \<and> (\<not> truthy (VStr ''none'')
                \<or> (\<exists>s. VStr ''none'' = VStr s \<and> lower s \<in> {''none'', ''false''}))"
    by (simp add: get_in_def lower_def lower_char_def)
  from clean_algorithm_variantcaller [THEN conjunct1, rule_format, OF h1]
       clean_algorithm_variantcaller [THEN conjunct2, rule_format, OF h2]
  show ?thesis by (rule conjI)
qed

text \<open>
  C10. For each of the keys \<^verbatim>\<open>variantcaller\<close>, \<^verbatim>\<open>jointcaller\<close> and
  \<^verbatim>\<open>svcaller\<close>, a list whose first element is a string that lowercases to
  \<^verbatim>\<open>"none"\<close> or \<^verbatim>\<open>"false"\<close> becomes \<^verbatim>\<open>False\<close>, whatever follows the first element.
\<close>

theorem clean_algorithm_first_sentinel:
  "key \<in> set [''variantcaller'', ''jointcaller'', ''svcaller''] \<Longrightarrow>
   get_in [''algorithm'', key] (VDict data) = VList (VStr s # rest) \<Longrightarrow>
   lower s \<in> set [''none'', ''false''] \<Longrightarrow>
   get_in [''algorithm'', key] (VDict (clean_algorithm data)) = VBool False"
  by (simp only: get_in_clean_algorithm) (auto simp: clean_caller_val_def)

theorem clean_algorithm_first_sentinel_witness:
  "get_in [''algorithm'', ''svcaller'']
     (VDict (clean_algorithm
        [(''description'', VStr ''s1''),
         (''algorithm'', VDict [(''svcaller'', VList [VStr ''None'', VStr ''lumpy''])])]))
     = VBool False"
proof -
  have k: "''svcaller'' \<in> set [''variantcaller'', ''jointcaller'', ''svcaller'']"
    by simp
  have h: "get_in [''algorithm'', ''svcaller'']
             (VDict [(''description'', VStr ''s1''),
                     (''algorithm'', VDict [(''svcaller'', VList [VStr ''None'', VStr ''lumpy''])])])
           = VList (VStr ''None'' # [VStr ''lumpy''])"
    by (simp add: get_in_def)
  have l: "lower ''None'' \<in> set [''none'', ''false'']"
    by (simp add: lower_def lower_char_def)
  from clean_algorithm_first_sentinel [OF k h l] show ?thesis .
qed

subsection \<open>Duplicates\<close>

text \<open>
  C1. Three samples of which the first and the third share both \<^verbatim>\<open>lane\<close> and
  \<^verbatim>\<open>description\<close>, with a different sample between them: \<^verbatim>\<open>_check_for_duplicates\<close>
  returns without an error for either attribute, because the groups are built from
  neighbouring entries only.
\<close>

theorem check_for_duplicates_nonadjacent:
  "check_for_duplicates
     [[(''description'', VStr ''a''), (''lane'', VStr ''1'')],
      [(''description'', VStr ''b''), (''lane'', VStr ''2'')],
      [(''description'', VStr ''a''), (''lane'', VStr ''1'')]] ''lane'' None = Inr ()
   \<and> check_for_duplicates
     [[(''description'', VStr ''a''), (''lane'', VStr ''1'')],
      [(''description'', VStr ''b''), (''lane'', VStr ''2'')],
      [(''description'', VStr ''a''), (''lane'', VStr ''1'')]] ''description'' None = Inr ()"
  by (simp add: check_for_duplicates_def)

text \<open>Neighbouring duplicates are reported, with the duplicated value and the descriptions.\<close>

lemma check_for_duplicates_adjacent:
  "check_for_duplicates
     [[(''description'', VStr ''a''), (''lane'', VStr ''1'')],
      [(''description'', VStr ''b''), (''lane'', VStr ''1'')],
      [(''description'', VStr ''c''), (''lane'', VStr ''2'')]] ''lane'' None
   = Inl (ValueError_Duplicate ''lane'' [VStr ''1''] [VStr ''a'', VStr ''b''])"
  by (simp add: check_for_duplicates_def)

subsection \<open>Boolean values\<close>

lemma value_problems_true:
  "(k, VBool True) \<in> set alg \<Longrightarrow> k \<notin> set ALG_ALLOW_BOOLEANS \<Longrightarrow>
   k @ '' set as true'' \<in> set (concat (map value_problems alg))"
proof -
  assume a: "(k, VBool True) \<in> set alg" and b: "k \<notin> set ALG_ALLOW_BOOLEANS"
  from b have "k @ '' set as true'' \<in> set (value_problems (k, VBool True))"
    by (simp add: value_problems_def)
  with a show ?thesis by (simp only: set_concat set_map) blast
qed

lemma value_problems_false:
  "(k, VBool False) \<in> set alg \<Longrightarrow> k \<notin> set ALG_ALLOW_BOOLEANS \<Longrightarrow>
   k \<notin> set ALG_ALLOW_FALSE \<Longrightarrow>
   k @ '' set as false'' \<in> set (concat (map value_problems alg))"
proof -
  assume a: "(k, VBool False) \<in> set alg" and b: "k \<notin> set ALG_ALLOW_BOOLEANS"
    and c: "k \<notin> set ALG_ALLOW_FALSE"
  from b c have "k @ '' set as false'' \<in> set (value_problems (k, VBool False))"
    by (simp add: value_problems_def)
  with a show ?thesis by (simp only: set_concat set_map) blast
qed


lemma value_problems_none:
  assumes "\<forall>(k, v) \<in> set alg.
      (v = VBool True \<longrightarrow> k \<in> set ALG_ALLOW_BOOLEANS) \<and>
      (v = VBool False \<longrightarrow> k \<in> set ALG_ALLOW_BOOLEANS \<or> k \<in> set ALG_ALLOW_FALSE)"
  shows "concat (map value_problems alg) = []"
proof -
  have "value_problems kv = []" if "kv \<in> set alg" for kv
  proof -
    obtain k v where kv: "kv = (k, v)" by (cases kv)
    with assms that have
      "(v = VBool True \<longrightarrow> k \<in> set ALG_ALLOW_BOOLEANS) \<and>
       (v = VBool False \<longrightarrow> k \<in> set ALG_ALLOW_BOOLEANS \<or> k \<in> set ALG_ALLOW_FALSE)"
      by blast
    then show ?thesis unfolding kv value_problems_def by (simp only: prod.case) auto
  qed
  then show ?thesis by simp
qed

text \<open>
  The check on the dictionary it is handed. For a sample with a description,
  \<^verbatim>\<open>_check_algorithm_values\<close> raises the error that lists \<open>k set as true\<close> when the
  algorithm section holds \<^verbatim>\<open>True\<close> for a key \<open>k\<close> outside
  \<^verbatim>\<open>ALG_ALLOW_BOOLEANS\<close>, raises the error that lists \<open>k set as false\<close> when it
  holds \<^verbatim>\<open>False\<close> for a key outside both \<^verbatim>\<open>ALG_ALLOW_BOOLEANS\<close> and
  \<^verbatim>\<open>ALG_ALLOW_FALSE\<close>, and returns normally when every boolean value sits under a key
  of the respective sets.
\<close>

theorem check_algorithm_values_booleans:
  assumes "map_of item ''algorithm'' = Some (VDict alg)"
    and "map_of item ''description'' = Some d"
  shows "((k, VBool True) \<in> set alg \<and> k \<notin> set ALG_ALLOW_BOOLEANS \<longrightarrow>
            (\<exists>problems. check_algorithm_values item = Inl (ValueError_AlgorithmValues d problems)
               \<and> k @ '' set as true'' \<in> set problems))
       \<and> ((k, VBool False) \<in> set alg \<and> k \<notin> set ALG_ALLOW_BOOLEANS \<and> k \<notin> set ALG_ALLOW_FALSE \<longrightarrow>
            (\<exists>problems. check_algorithm_values item = Inl (ValueError_AlgorithmValues d problems)
               \<and> k @ '' set as false'' \<in> set problems))
       \<and> ((\<forall>(k, v) \<in> set alg.
              (v = VBool True \<longrightarrow> k \<in> set ALG_ALLOW_BOOLEANS) \<and>
              (v = VBool False \<longrightarrow> k \<in> set ALG_ALLOW_BOOLEANS \<or> k \<in> set ALG_ALLOW_FALSE)) \<longrightarrow>
            check_algorithm_values item = Inr ())"
proof -
  define problems where "problems = concat (map value_problems alg)"
  have run: "check_algorithm_values item =
               (if problems \<noteq> [] then Inl (ValueError_AlgorithmValues d problems) else Inr ())"
    using assms by (simp add: check_algorithm_values_def problems_def)
  have t: "k @ '' set as true'' \<in> set problems"
    if "(k, VBool True) \<in> set alg \<and> k \<notin> set ALG_ALLOW_BOOLEANS"
    using that value_problems_true [of k alg] unfolding problems_def by blast
  have f: "k @ '' set as false'' \<in> set problems"
    if "(k, VBool False) \<in> set alg \<and> k \<notin> set ALG_ALLOW_BOOLEANS \<and> k \<notin> set ALG_ALLOW_FALSE"
    using that value_problems_false [of k alg] unfolding problems_def by blast
  have n: "problems = []"
    if "\<forall>(k, v) \<in> set alg.
              (v = VBool True \<longrightarrow> k \<in> set ALG_ALLOW_BOOLEANS) \<and>
              (v = VBool False \<longrightarrow> k \<in> set ALG_ALLOW_BOOLEANS \<or> k \<in> set ALG_ALLOW_FALSE)"
    using that unfolding problems_def by (rule value_problems_none)
  have ne: "problems \<noteq> []" if "x \<in> set problems" for x
    using that by (cases problems) simp_all
  show ?thesis
  proof (intro conjI impI)
    assume a: "(k, VBool True) \<in> set alg \<and> k \<notin> set ALG_ALLOW_BOOLEANS"
    from t [OF a] ne [OF t [OF a]] run
    show "\<exists>problems. check_algorithm_values item = Inl (ValueError_AlgorithmValues d problems)
               \<and> k @ '' set as true'' \<in> set problems"
      by simp
  next
    assume a: "(k, VBool False) \<in> set alg \<and> k \<notin> set ALG_ALLOW_BOOLEANS \<and> k \<notin> set ALG_ALLOW_FALSE"
    from f [OF a] ne [OF f [OF a]] run
    show "\<exists>problems. check_algorithm_values item = Inl (ValueError_AlgorithmValues d problems)
               \<and> k @ '' set as false'' \<in> set problems"
      by simp
  next
    assume a: "\<forall>(k, v) \<in> set alg.
              (v = VBool True \<longrightarrow> k \<in> set ALG_ALLOW_BOOLEANS) \<and>
              (v = VBool False \<longrightarrow> k \<in> set ALG_ALLOW_BOOLEANS \<or> k \<in> set ALG_ALLOW_FALSE)"
    from n [OF a] run show "check_algorithm_values item = Inr ()" by simp
  qed
qed

theorem check_algorithm_values_booleans_witness:
  "(\<exists>problems.
      check_algorithm_values
        [(''description'', VStr ''s1''),
         (''algorithm'', VDict [(''coverage'', VBool True), (''qc'', VBool False)])]
        = Inl (ValueError_AlgorithmValues (VStr ''s1'') problems)
      \<and> ''coverage'' @ '' set as true'' \<in> set problems)
   \<and> (\<exists>problems.
      check_algorithm_values
        [(''description'', VStr ''s1''),
         (''algorithm'', VDict [(''coverage'', VBool True), (''qc'', VBool False)])]
        = Inl (ValueError_AlgorithmValues (VStr ''s1'') problems)
      \<and> ''qc'' @ '' set as false'' \<in> set problems)
   \<and> check_algorithm_values
        [(''description'', VStr ''s2''),
         (''algorithm'', VDict [(''trim_reads'', VBool True), (''aligner'', VBool False),
                                (''realign'', VBool False), (''coverage'', VStr ''region.bed'')])]
        = Inr ()"
proof -
  have a1: "map_of [(''description'', VStr ''s1''),
         (''algorithm'', VDict [(''coverage'', VBool True), (''qc'', VBool False)])] ''algorithm''
        = Some (VDict [(''coverage'', VBool True), (''qc'', VBool False)])"
    by simp
  have d1: "map_of [(''description'', VStr ''s1''),
         (''algorithm'', VDict [(''coverage'', VBool True), (''qc'', VBool False)])] ''description''
        = Some (VStr ''s1'')"
    by simp
  have t: "(''coverage'', VBool True) \<in> set [(''coverage'', VBool True), (''qc'', VBool False)]
           \<and> ''coverage'' \<notin> set ALG_ALLOW_BOOLEANS"
    by (simp add: ALG_ALLOW_BOOLEANS_def)
  have f: "(''qc'', VBool False) \<in> set [(''coverage'', VBool True), (''qc'', VBool False)]
           \<and> ''qc'' \<notin> set ALG_ALLOW_BOOLEANS \<and> ''qc'' \<notin> set ALG_ALLOW_FALSE"
    by (simp add: ALG_ALLOW_BOOLEANS_def ALG_ALLOW_FALSE_def)
  have a2: "map_of [(''description'', VStr ''s2''),
         (''algorithm'', VDict [(''trim_reads'', VBool True), (''aligner'', VBool False),
                                (''realign'', VBool False), (''coverage'', VStr ''region.bed'')])]
         ''algorithm''
        = Some (VDict [(''trim_reads'', VBool True), (''aligner'', VBool False),
                       (''realign'', VBool False), (''coverage'', VStr ''region.bed'')])"
    by simp
  have d2: "map_of [(''description'', VStr ''s2''),
         (''algorithm'', VDict [(''trim_reads'', VBool True), (''aligner'', VBool False),
                                (''realign'', VBool False), (''coverage'', VStr ''region.bed'')])]
         ''description''
        = Some (VStr ''s2'')"
    by simp
  have n: "\<forall>(k, v) \<in> set [(''trim_reads'', VBool True), (''aligner'', VBool False),
                         (''realign'', VBool False), (''coverage'', VStr ''region.bed'')].
              (v = VBool True \<longrightarrow> k \<in> set ALG_ALLOW_BOOLEANS) \<and>
              (v = VBool False \<longrightarrow> k \<in> set ALG_ALLOW_BOOLEANS \<or> k \<in> set ALG_ALLOW_FALSE)"
    by (simp add: ALG_ALLOW_BOOLEANS_def ALG_ALLOW_FALSE_def)
  from check_algorithm_values_booleans [OF a1 d1, THEN conjunct1, rule_format, OF t]
       check_algorithm_values_booleans [OF a1 d1, THEN conjunct2, THEN conjunct1, rule_format, OF f]
       check_algorithm_values_booleans [OF a2 d2, THEN conjunct2, THEN conjunct2, THEN mp, OF n]
  show ?thesis by (intro conjI)
qed

text \<open>
  The check runs on what the normalisation passes left. \<^verbatim>\<open>_add_algorithm_defaults\<close>
  wraps \<^verbatim>\<open>True\<close> under a key of \<^verbatim>\<open>convert_to_list\<close> into a one-element list,
  and a list is never a problem for the check.
\<close>

lemma coerce_entry_true_list_key:
  "k \<in> set convert_to_list \<Longrightarrow>
   coerce_entry algorithm (k, VBool True) = Inr (AList.update k (VList [VBool True]) algorithm)"
  by (simp add: coerce_entry_def)

lemma value_problems_list: "value_problems (k, VList xs) = []"
  by (simp add: value_problems_def)

text \<open>
  C5. A sample whose algorithm section is \<^verbatim>\<open>qc: true\<close>, where \<^verbatim>\<open>qc\<close> is outside
  \<^verbatim>\<open>ALG_ALLOW_BOOLEANS\<close>. Handed that section, \<^verbatim>\<open>_check_algorithm_values\<close>
  raises the error that lists \<open>qc set as true\<close>. In resolution
  \<^verbatim>\<open>_add_algorithm_defaults\<close> runs before it and turns the value into
  \<^verbatim>\<open>[True]\<close>, \<^verbatim>\<open>_clean_algorithm\<close> changes nothing, and
  \<^verbatim>\<open>_check_algorithm_values\<close> on the result returns without an error.
\<close>

theorem check_algorithm_values_after_defaults:
  "''qc'' \<notin> set ALG_ALLOW_BOOLEANS
   \<and> check_algorithm_values
       [(''description'', VStr ''s1''), (''algorithm'', VDict [(''qc'', VBool True)])]
     = Inl (ValueError_AlgorithmValues (VStr ''s1'') [''qc set as true''])
   \<and> add_algorithm_defaults (VDict [(''qc'', VBool True)])
     = Inr [(''qc'', VList [VBool True]), (''archive'', VNone),
            (''tools_off'', VList []), (''tools_on'', VList []),
            (''trim_reads'', VBool False), (''adapters'', VList []),
            (''effects'', VStr ''snpeff''),
            (''quality_format'', VStr ''standard''),
            (''align_split_size'', VNone), (''bam_clean'', VBool False),
            (''nomap_split_size'', VInt 250), (''nomap_split_targets'', VInt 200),
            (''mark_duplicates'', VBool False), (''coverage_interval'', VNone),
            (''recalibrate'', VBool False), (''realign'', VBool False),
            (''variant_regions'', VNone), (''validate'', VNone),
            (''validate_regions'', VNone)]
   \<and> clean_algorithm
       [(''description'', VStr ''s1''),
        (''algorithm'',
         VDict [(''qc'', VList [VBool True]), (''archive'', VNone),
            (''tools_off'', VList []), (''tools_on'', VList []),
            (''trim_reads'', VBool False), (''adapters'', VList []),
            (''effects'', VStr ''snpeff''),
            (''quality_format'', VStr ''standard''),
            (''align_split_size'', VNone), (''bam_clean'', VBool False),
            (''nomap_split_size'', VInt 250), (''nomap_split_targets'', VInt 200),
            (''mark_duplicates'', VBool False), (''coverage_interval'', VNone),
            (''recalibrate'', VBool False), (''realign'', VBool False),
            (''variant_regions'', VNone), (''validate'', VNone),
            (''validate_regions'', VNone)])]
     = [(''description'', VStr ''s1''),
        (''algorithm'',
         VDict [(''qc'', VList [VBool True]), (''archive'', VNone),
            (''tools_off'', VList []), (''tools_on'', VList []),
            (''trim_reads'', VBool False), (''adapters'', VList []),
            (''effects'', VStr ''snpeff''),
            (''quality_format'', VStr ''standard''),
            (''align_split_size'', VNone), (''bam_clean'', VBool False),
            (''nomap_split_size'', VInt 250), (''nomap_split_targets'', VInt 200),
            (''mark_duplicates'', VBool False), (''coverage_interval'', VNone),
            (''recalibrate'', VBool False), (''realign'', VBool False),
            (''variant_regions'', VNone), (''validate'', VNone),
            (''validate_regions'', VNone)])]
   \<and> check_algorithm_values
       [(''description'', VStr ''s1''),
        (''algorithm'',
         VDict [(''qc'', VList [VBool True]), (''archive'', VNone),
            (''tools_off'', VList []), (''tools_on'', VList []),
            (''trim_reads'', VBool False), (''adapters'', VList []),
            (''effects'', VStr ''snpeff''),
            (''quality_format'', VStr ''standard''),
            (''align_split_size'', VNone), (''bam_clean'', VBool False),
            (''nomap_split_size'', VInt 250), (''nomap_split_targets'', VInt 200),
            (''mark_duplicates'', VBool False), (''coverage_interval'', VNone),
            (''recalibrate'', VBool False), (''realign'', VBool False),
            (''variant_regions'', VNone), (''validate'', VNone),
            (''validate_regions'', VNone)])]
     = Inr ()"
  by code_simp

subsection \<open>File types\<close>

lemma endswith_nonempty: "endswith x ''.bam'' \<Longrightarrow> x \<noteq> []"
  by (auto simp: endswith_def)

lemma distinct_file_types: "distinct (file_types_of files)"
  by (simp add: file_types_of_def)

lemma set_file_types:
  "set (file_types_of files) =
     (if \<exists>x\<in>set files. endswith x ''.bam'' then {''bam''} else {})
     \<union> (if \<exists>y\<in>set files. y \<noteq> [] \<and> \<not> endswith y ''.bam'' then {''fastq''} else {})"
proof -
  have img: "set (file_types_of files) =
               (\<lambda>x. if endswith x ''.bam'' then ''bam'' else ''fastq'') ` {x \<in> set files. x \<noteq> []}"
    by (simp add: file_types_of_def del: if_image_distrib)
  have b: "''bam'' \<in> set (file_types_of files) \<longleftrightarrow> (\<exists>x\<in>set files. endswith x ''.bam'')"
    unfolding img image_iff using endswith_nonempty by (auto split: if_splits)
  have f: "''fastq'' \<in> set (file_types_of files) \<longleftrightarrow>
             (\<exists>y\<in>set files. y \<noteq> [] \<and> \<not> endswith y ''.bam'')"
    unfolding img image_iff by (auto split: if_splits)
  have o: "t = ''bam'' \<or> t = ''fastq''" if "t \<in> set (file_types_of files)" for t
    using that unfolding img image_iff by (auto split: if_splits)
  show ?thesis
  proof (rule set_eqI)
    fix t
    show "t \<in> set (file_types_of files) \<longleftrightarrow>
          t \<in> (if \<exists>x\<in>set files. endswith x ''.bam'' then {''bam''} else {})
              \<union> (if \<exists>y\<in>set files. y \<noteq> [] \<and> \<not> endswith y ''.bam'' then {''fastq''} else {})"
      using b f o [of t] by (auto split: if_splits)
  qed
qed

lemma distinct_set_single: "distinct xs \<Longrightarrow> set xs = {a} \<Longrightarrow> xs = [a]"
  by (cases xs) (auto simp: subset_singleton_iff dest: subset_singletonD)

lemma file_types_all_bam:
  assumes "files \<noteq> []" "\<forall>x\<in>set files. endswith x ''.bam''"
  shows "file_types_of files = [''bam'']"
proof -
  from assms obtain x where "x \<in> set files" "endswith x ''.bam''"
    by (cases files) auto
  then have "\<exists>x\<in>set files. endswith x ''.bam''" by blast
  moreover from assms have "\<not> (\<exists>y\<in>set files. y \<noteq> [] \<and> \<not> endswith y ''.bam'')" by blast
  ultimately have "set (file_types_of files) = {''bam''}"
    by (simp only: set_file_types if_True if_False) simp
  with distinct_file_types show ?thesis by (rule distinct_set_single)
qed

lemma file_types_all_fastq:
  assumes "files \<noteq> []" "\<forall>x\<in>set files. x \<noteq> [] \<and> \<not> endswith x ''.bam''"
  shows "file_types_of files = [''fastq'']"
proof -
  from assms obtain x where "x \<in> set files" "x \<noteq> [] \<and> \<not> endswith x ''.bam''"
    by (cases files) auto
  then have "\<exists>y\<in>set files. y \<noteq> [] \<and> \<not> endswith y ''.bam''" by blast
  moreover from assms have "\<not> (\<exists>x\<in>set files. endswith x ''.bam'')" by blast
  ultimately have "set (file_types_of files) = {''fastq''}"
    by (simp only: set_file_types if_True if_False) simp
  with distinct_file_types show ?thesis by (rule distinct_set_single)
qed

lemma file_types_mixed:
  assumes "\<exists>x\<in>set files. endswith x ''.bam''"
    and "\<exists>y\<in>set files. y \<noteq> [] \<and> \<not> endswith y ''.bam''"
  shows "\<exists>t u. file_types_of files = [t, u]"
proof -
  from assms have s: "set (file_types_of files) = {''bam'', ''fastq''}"
    by (simp only: set_file_types if_True) auto
  have "length (file_types_of files) = card (set (file_types_of files))"
    using distinct_file_types by (simp add: distinct_card)
  also have "\<dots> = 2" unfolding s by simp
  finally show ?thesis
    by (cases "file_types_of files") (auto simp: length_Suc_conv)
qed

lemma mixed_length:
  assumes "\<exists>x\<in>set files. endswith x ''.bam''"
    and "\<exists>y\<in>set files. y \<noteq> [] \<and> \<not> endswith y ''.bam''"
  shows "length files \<noteq> 1"
proof
  assume "length files = 1"
  then obtain z where "files = [z]" by (cases files) auto
  with assms show False by auto
qed

lemma sanity_mixed:
  assumes "\<exists>x\<in>set files. endswith x ''.bam''"
    and "\<exists>y\<in>set files. y \<noteq> [] \<and> \<not> endswith y ''.bam''"
  shows "isl (sanity_check_files pop_bam item files)"
proof -
  from file_types_mixed [OF assms] obtain t u where ft: "file_types_of files = [t, u]"
    by blast
  note len = mixed_length [OF assms]
  show ?thesis
    unfolding sanity_check_files_def ft Let_def
    using len
    by (cases "analysis_not_scrna item") (simp_all add: raise_files_msg_def)
qed

lemma sanity_all_bam:
  assumes "files \<noteq> []" "\<forall>x\<in>set files. endswith x ''.bam''"
  shows "sanity_check_files pop_bam item files = Inr () \<longleftrightarrow> length files = 1"
  unfolding sanity_check_files_def file_types_all_bam [OF assms] Let_def
  by (simp add: raise_files_msg_def)

lemma analysis_not_scrna_cases:
  "analysis_not_scrna item = Inr False \<longleftrightarrow>
     (\<exists>a. map_of item ''analysis'' = Some (VStr a) \<and> lower a = ''scrna-seq'')"
  by (auto simp: analysis_not_scrna_def split: option.splits val.splits)

lemma sanity_all_fastq:
  assumes "files \<noteq> []" "\<forall>x\<in>set files. x \<noteq> [] \<and> \<not> endswith x ''.bam''"
  shows "sanity_check_files pop_bam item files = Inr () \<longleftrightarrow>
           (length files \<in> {1, 2}
              \<or> (\<exists>a. map_of item ''analysis'' = Some (VStr a) \<and> lower a = ''scrna-seq''))
           \<and> \<not> (length files = 2 \<and> files ! 0 = files ! 1)"
proof (cases "length files \<in> {1, 2}")
  case True
  then show ?thesis
    unfolding sanity_check_files_def file_types_all_fastq [OF assms] Let_def
    by (auto simp: raise_files_msg_def)
next
  case False
  then have l: "length files \<noteq> 1" "length files \<noteq> 2" by auto
  show ?thesis
  proof (cases "analysis_not_scrna item")
    case (Inl e)
    then have "\<not> (\<exists>a. map_of item ''analysis'' = Some (VStr a) \<and> lower a = ''scrna-seq'')"
      using analysis_not_scrna_cases [of item] by simp
    with Inl l show ?thesis
      unfolding sanity_check_files_def file_types_all_fastq [OF assms] Let_def
      by simp
  next
    case (Inr c)
    then have "c = False \<longleftrightarrow> (\<exists>a. map_of item ''analysis'' = Some (VStr a) \<and> lower a = ''scrna-seq'')"
      using analysis_not_scrna_cases [of item] by simp
    with Inr l show ?thesis
      unfolding sanity_check_files_def file_types_all_fastq [OF assms] Let_def
      by (cases c) (simp_all add: raise_files_msg_def)
  qed
qed

text \<open>
  C6. \<^verbatim>\<open>_sanity_check_files\<close> fails on every list that mixes a \<^verbatim>\<open>.bam\<close> path with
  another path; on a non-empty list of \<^verbatim>\<open>.bam\<close> paths it succeeds exactly when the list
  has one element; on a non-empty list of other paths it succeeds exactly when the length is 1
  or 2 or the analysis lowercases to \<^verbatim>\<open>scrna-seq\<close>, and the list is not a pair of equal
  paths. This holds for either element that \<^verbatim>\<open>file_types.pop()\<close> may return.
\<close>

theorem sanity_check_files_cases:
  "((\<exists>x\<in>set files. endswith x ''.bam'')
      \<and> (\<exists>y\<in>set files. y \<noteq> [] \<and> \<not> endswith y ''.bam'') \<longrightarrow>
        isl (sanity_check_files pop_bam item files))
   \<and> (files \<noteq> [] \<and> (\<forall>x\<in>set files. endswith x ''.bam'') \<longrightarrow>
        (sanity_check_files pop_bam item files = Inr () \<longleftrightarrow> length files = 1))
   \<and> (files \<noteq> [] \<and> (\<forall>x\<in>set files. x \<noteq> [] \<and> \<not> endswith x ''.bam'') \<longrightarrow>
        (sanity_check_files pop_bam item files = Inr () \<longleftrightarrow>
           (length files \<in> {1, 2}
              \<or> (\<exists>a. map_of item ''analysis'' = Some (VStr a) \<and> lower a = ''scrna-seq''))
           \<and> \<not> (length files = 2 \<and> files ! 0 = files ! 1)))"
  using sanity_mixed [of files pop_bam item] sanity_all_bam [of files pop_bam item]
    sanity_all_fastq [of files pop_bam item]
  by blast

theorem sanity_check_files_cases_witness:
  "isl (sanity_check_files True [(''description'', VStr ''s1''), (''analysis'', VStr ''variant2'')]
          [''/d/a.bam'', ''/d/b.fq''])
   \<and> sanity_check_files True [(''description'', VStr ''s1''), (''analysis'', VStr ''variant2'')]
          [''/d/a.bam''] = Inr ()
   \<and> sanity_check_files True [(''description'', VStr ''s1''), (''analysis'', VStr ''variant2'')]
          [''/d/a.fq'', ''/d/b.fq''] = Inr ()
   \<and> sanity_check_files True [(''description'', VStr ''s1''), (''analysis'', VStr ''variant2'')]
          [''/d/a.fq'', ''/d/a.fq''] \<noteq> Inr ()"
proof -
  let ?item = "[(''description'', VStr ''s1''), (''analysis'', VStr ''variant2'')]"
  have m: "(\<exists>x\<in>set [''/d/a.bam'', ''/d/b.fq'']. endswith x ''.bam'')
      \<and> (\<exists>y\<in>set [''/d/a.bam'', ''/d/b.fq'']. y \<noteq> [] \<and> \<not> endswith y ''.bam'')"
    by (simp add: endswith_def)
  have b: "[''/d/a.bam''] \<noteq> [] \<and> (\<forall>x\<in>set [''/d/a.bam'']. endswith x ''.bam'')"
    by (simp add: endswith_def)
  have q: "[''/d/a.fq'', ''/d/b.fq''] \<noteq> []
           \<and> (\<forall>x\<in>set [''/d/a.fq'', ''/d/b.fq'']. x \<noteq> [] \<and> \<not> endswith x ''.bam'')"
    by (simp add: endswith_def)
  have e: "[''/d/a.fq'', ''/d/a.fq''] \<noteq> []
           \<and> (\<forall>x\<in>set [''/d/a.fq'', ''/d/a.fq'']. x \<noteq> [] \<and> \<not> endswith x ''.bam'')"
    by (simp add: endswith_def)
  have 1: "isl (sanity_check_files True ?item [''/d/a.bam'', ''/d/b.fq''])"
    using sanity_check_files_cases [THEN conjunct1, rule_format, OF m] .
  have 2: "sanity_check_files True ?item [''/d/a.bam''] = Inr ()"
    using sanity_check_files_cases [THEN conjunct2, THEN conjunct1, rule_format, OF b, of True ?item]
    by simp
  have 3: "sanity_check_files True ?item [''/d/a.fq'', ''/d/b.fq''] = Inr ()"
    using sanity_check_files_cases [THEN conjunct2, THEN conjunct2, rule_format, OF q, of True ?item]
    by simp
  have 4: "sanity_check_files True ?item [''/d/a.fq'', ''/d/a.fq''] \<noteq> Inr ()"
    using sanity_check_files_cases [THEN conjunct2, THEN conjunct2, rule_format, OF e, of True ?item]
    by simp
  from 1 2 3 4 show ?thesis by (intro conjI)
qed

subsection \<open>Files that all resolve to nothing\<close>

lemma file_to_abs_loop_nomakedir:
  "file_to_abs_loop env fs x dnames False = Some (p, fs') \<Longrightarrow> fs' = fs"
  by (induction dnames) (auto simp: Let_def split: option.splits if_splits)

lemma file_to_abs_nomakedir: "snd (file_to_abs env fs x dnames False) = fs"
  by (auto simp: file_to_abs_def split: option.splits dest: file_to_abs_loop_nomakedir)

lemma file_to_abs_none_iff:
  "fst (file_to_abs env fs (Some s) dnames makedir) = Inr None \<longleftrightarrow>
     \<not> isabs env s \<and> \<not> is_remote env s \<and> lower s = ''none''"
  by (auto simp: file_to_abs_def split: option.splits)

lemma file_to_abs_sentinel:
  "\<not> isabs env s \<Longrightarrow> \<not> is_remote env s \<Longrightarrow> lower s = ''none'' \<Longrightarrow>
   file_to_abs env fs (Some s) dnames makedir = (Inr None, fs)"
  by (simp add: file_to_abs_def)

lemma file_to_abs_all_none:
  "\<forall>x\<in>set xs. x = VNone
      \<or> (\<exists>s. x = VStr s \<and> \<not> isabs env s \<and> \<not> is_remote env s \<and> lower s = ''none'') \<Longrightarrow>
   file_to_abs_all env fs xs dnames = (Inr (replicate (length xs) None), fs)"
proof (induction xs)
  case Nil
  then show ?case by simp
next
  case (Cons x xs)
  then have ih: "file_to_abs_all env fs xs dnames = (Inr (replicate (length xs) None), fs)"
    by simp
  from Cons.prems consider "x = VNone"
    | s where "x = VStr s" "\<not> isabs env s" "\<not> is_remote env s" "lower s = ''none''"
    by auto
  then show ?case
  proof cases
    case 1
    then show ?thesis using ih by (simp add: file_to_abs_def)
  next
    case 2
    then show ?thesis using ih by (simp add: file_to_abs_sentinel)
  qed
qed

lemma truthy_paths_replicate: "truthy_paths (replicate n None) = []"
  by (induction n) simp_all

lemma sanity_check_files_empty:
  "sanity_check_files pop_bam item [] = Inl (KeyError ''pop from an empty set'')"
  by (simp add: sanity_check_files_def file_types_of_def)

text \<open>
  C9. A sample whose \<^verbatim>\<open>files\<close> value is truthy and whose every element is
  \<^verbatim>\<open>None\<close> or resolves to \<^verbatim>\<open>None\<close> (a relative, non-remote string that lowercases
  to \<^verbatim>\<open>none\<close>): \<^verbatim>\<open>_normalize_files\<close> runs the sanity check on the empty list and
  fails with the \<^verbatim>\<open>KeyError\<close> of \<^verbatim>\<open>set.pop\<close>, not with the \<^verbatim>\<open>ValueError\<close> that
  names the sample.
\<close>

theorem normalize_files_all_none:
  assumes "map_of item ''files'' = Some fv" and "truthy fv"
    and "files_elements fv = Inr xs"
    and "\<forall>x\<in>set xs. x = VNone
           \<or> (\<exists>s. x = VStr s \<and> \<not> isabs env s \<and> \<not> is_remote env s \<and> lower s = ''none'')"
  shows "normalize_files env fs pop_bam item fc_dir
           = (Inl (KeyError ''pop from an empty set''), fs)"
  using assms(1-3)
  by (simp add: normalize_files_def Let_def file_to_abs_all_none [OF assms(4)]
      truthy_paths_replicate sanity_check_files_empty)


theorem normalize_files_all_none_witness:
  "normalize_files example_env [] True
     [(''description'', VStr ''s1''), (''files'', VList [VStr ''none'', VStr ''None''])] None
   = (Inl (KeyError ''pop from an empty set''), [])"
proof -
  have f: "map_of [(''description'', VStr ''s1''), (''files'', VList [VStr ''none'', VStr ''None''])]
             ''files'' = Some (VList [VStr ''none'', VStr ''None''])"
    by simp
  have t: "truthy (VList [VStr ''none'', VStr ''None''])"
    by simp
  have e: "files_elements (VList [VStr ''none'', VStr ''None'']) = Inr [VStr ''none'', VStr ''None'']"
    by simp
  have n: "\<forall>x\<in>set [VStr ''none'', VStr ''None'']. x = VNone
             \<or> (\<exists>s. x = VStr s \<and> \<not> isabs example_env s \<and> \<not> is_remote example_env s
                     \<and> lower s = ''none'')"
    by (simp add: example_env_def lower_def lower_char_def)
  from normalize_files_all_none [OF f t e n] show ?thesis .
qed

subsection \<open>Path resolution with directory creation\<close>

lemma file_to_abs_loop_skip:
  "\<forall>p\<in>set pre. \<not> truthy_dir p \<Longrightarrow>
   file_to_abs_loop env fs x (pre @ rest) makedir = file_to_abs_loop env fs x rest makedir"
  by (induction pre) (auto split: option.splits)

lemma file_to_abs_loop_none:
  "\<forall>p\<in>set dnames. \<not> truthy_dir p \<Longrightarrow> file_to_abs_loop env fs x dnames makedir = None"
  using file_to_abs_loop_skip [of dnames env fs x "[]" makedir] by simp

text \<open>
  C4 (amended). For a relative, non-remote path other than \<^verbatim>\<open>none\<close> and with
  \<^verbatim>\<open>makedir\<close> set, \<^verbatim>\<open>_file_to_abs\<close> looks at the first non-empty candidate directory
  only: it returns the join with that directory, after creating it when it does not exist.
  Later candidates are not consulted. With no non-empty candidate it raises the error.
\<close>

theorem file_to_abs_makedir_first:
  assumes "\<not> isabs env x" and "\<not> is_remote env x" and "lower x \<noteq> ''none''"
  shows "((\<forall>p\<in>set dnames. \<not> truthy_dir p) \<longrightarrow>
            file_to_abs env fs (Some x) dnames True = (Inl (ValueError_NotFound x dnames), fs))
       \<and> (dnames = pre @ Some d # post \<and> (\<forall>p\<in>set pre. \<not> truthy_dir p) \<and> d \<noteq> [] \<longrightarrow>
            file_to_abs env fs (Some x) dnames True =
              (Inr (Some (join_normpath env d x)),
               if path_exists env fs (join_normpath env d x) then fs
               else safe_makedir env (join_normpath env d x) fs))"
  using assms
  by (auto simp: file_to_abs_def file_to_abs_loop_none file_to_abs_loop_skip Let_def)

theorem file_to_abs_makedir_first_witness:
  "file_to_abs example_env [''/b/up''] (Some ''up'') [None, Some ''/a'', Some ''/b''] True
     = (Inr (Some ''/a/up''), [''/a/up'', ''/b/up''])"
proof -
  have a: "\<not> isabs example_env ''up''" by (simp add: example_env_def)
  have r: "\<not> is_remote example_env ''up''" by (simp add: example_env_def)
  have l: "lower ''up'' \<noteq> ''none''" by (simp add: lower_def lower_char_def)
  have d: "[None, Some ''/a'', Some ''/b''] = [None] @ Some ''/a'' # [Some ''/b'']
           \<and> (\<forall>p\<in>set [None]. \<not> truthy_dir p) \<and> ''/a'' \<noteq> []"
    by simp
  from file_to_abs_makedir_first [OF a r l, THEN conjunct2, rule_format, OF d, of "[''/b/up'']"]
  show ?thesis by (simp add: example_env_def)
qed

text \<open>
  C4 as stated fails: the join with the second candidate exists, the join with the first
  does not, and the call creates and returns the join with the first.
\<close>

theorem file_to_abs_makedir_counterexample:
  "path_exists example_env [''/b/up''] (join_normpath example_env ''/b'' ''up'')
   \<and> \<not> path_exists example_env [''/b/up''] (join_normpath example_env ''/a'' ''up'')
   \<and> file_to_abs example_env [''/b/up''] (Some ''up'') [Some ''/a'', Some ''/b''] True
       = (Inr (Some ''/a/up''), [''/a/up'', ''/b/up''])"
  by (simp add: example_env_def file_to_abs_def lower_def lower_char_def Let_def)

subsection \<open>Global variables\<close>

lemma update_absent: "k \<notin> fst ` set al \<Longrightarrow> AList.update k v al = al @ [(k, v)]"
  by (induction al) auto

lemma foldl_update_fresh:
  "distinct (map fst kvs) \<Longrightarrow> fst ` set acc \<inter> fst ` set kvs = {} \<Longrightarrow>
   foldl (\<lambda>final kv. AList.update (fst kv) (f (snd kv)) final) acc kvs
     = acc @ map (\<lambda>kv. (fst kv, f (snd kv))) kvs"
proof (induction kvs arbitrary: acc)
  case Nil
  then show ?case by simp
next
  case (Cons kv kvs)
  from Cons.prems have fresh: "fst kv \<notin> fst ` set acc" by auto
  have disj: "fst ` set (acc @ [(fst kv, f (snd kv))]) \<inter> fst ` set kvs = {}"
    using Cons.prems by auto
  from Cons.prems have d: "distinct (map fst kvs)" by simp
  show ?case
    by (simp add: update_absent [OF fresh] Cons.IH [OF d disj])
qed

lemma replace_value_cases:
  "replace_value global_vars (VList xs) = VList xs"
  "replace_value global_vars (VDict d) = VDict d"
  "map_of global_vars s = Some g \<Longrightarrow> replace_value global_vars (VStr s) = g"
  "map_of global_vars s = None \<Longrightarrow> replace_value global_vars (VStr s) = VStr s"
  by (simp_all add: replace_value_def)

text \<open>
  C3 (amended). On an algorithm dictionary \<^verbatim>\<open>_replace_global_vars\<close> returns a dictionary
  with the same keys in the same order, in which every value that is a string and a key of
  the global variable table is replaced by the value the table gives it, and every other
  value is kept as it is: a string outside the table, a list, a nested dictionary, a number,
  a boolean, \<^verbatim>\<open>None\<close>. Nothing is substituted inside lists or nested dictionaries.
\<close>

theorem replace_global_vars_top_level:
  assumes "distinct (map fst alg)"
  shows "replace_global_vars (VDict alg) global_vars
           = Inr (VDict (map (\<lambda>kv. (fst kv, replace_value global_vars (snd kv))) alg))
       \<and> (\<forall>s g. map_of global_vars s = Some g \<longrightarrow> replace_value global_vars (VStr s) = g)
       \<and> (\<forall>s. map_of global_vars s = None \<longrightarrow> replace_value global_vars (VStr s) = VStr s)
       \<and> (\<forall>xs. replace_value global_vars (VList xs) = VList xs)
       \<and> (\<forall>d. replace_value global_vars (VDict d) = VDict d)
       \<and> replace_value global_vars VNone = VNone
       \<and> (\<forall>b. replace_value global_vars (VBool b) = VBool b)
       \<and> (\<forall>i. replace_value global_vars (VInt i) = VInt i)"
  using foldl_update_fresh [OF assms, of "[]" "replace_value global_vars"]
  by (simp add: replace_value_def)

theorem replace_global_vars_top_level_witness:
  "replace_global_vars
     (VDict [(''variant_regions'', VStr ''regions''), (''aligner'', VStr ''bwa''),
             (''variantcaller'', VList [VStr ''vc''])])
     [(''regions'', VStr ''/data/regions.bed''), (''vc'', VStr ''gatk'')]
   = Inr (VDict [(''variant_regions'', VStr ''/data/regions.bed''), (''aligner'', VStr ''bwa''),
                 (''variantcaller'', VList [VStr ''vc''])])"
proof -
  have d: "distinct (map fst [(''variant_regions'', VStr ''regions''), (''aligner'', VStr ''bwa''),
             (''variantcaller'', VList [VStr ''vc''])])"
    by simp
  from replace_global_vars_top_level [OF d, THEN conjunct1,
      of "[(''regions'', VStr ''/data/regions.bed''), (''vc'', VStr ''gatk'')]"]
  show ?thesis by (simp add: replace_value_def)
qed

text \<open>
  C3 as stated fails: a list of strings under a key, and a dictionary under a key, are
  returned unchanged although they hold a key of the global variable table.
\<close>

theorem replace_global_vars_counterexample:
  "replace_global_vars (VDict [(''variantcaller'', VList [VStr ''vc''])]) [(''vc'', VStr ''gatk'')]
     = Inr (VDict [(''variantcaller'', VList [VStr ''vc''])])
   \<and> replace_global_vars (VDict [(''background'', VDict [(''variant'', VStr ''bg'')])])
       [(''bg'', VStr ''/data/bg.vcf'')]
     = Inr (VDict [(''background'', VDict [(''variant'', VStr ''bg'')])])"
  by (simp add: replace_value_def)

text \<open>A non-empty list as the argument raises the \<^verbatim>\<open>TypeError\<close>.\<close>

lemma replace_global_vars_list:
  "xs \<noteq> [] \<Longrightarrow> isl (replace_global_vars (VList xs) global_vars)"
  by simp

subsection \<open>Global resources\<close>

lemma set_resource_lookup:
  "map_of r prog \<noteq> None \<Longrightarrow>
   resource_lookup (set_resource r prog key v) p k =
     (if p = prog \<and> k = key then Some v else resource_lookup r p k)"
  by (auto simp: set_resource_def resource_lookup_def update_conv' split: option.splits)

lemma set_resource_present:
  "map_of r prog \<noteq> None \<Longrightarrow> map_of (set_resource r prog key v) prog \<noteq> None"
  by (auto simp: set_resource_def update_conv' split: option.splits)

lemma foldl_set_resource_lookup:
  "map_of r prog \<noteq> None \<Longrightarrow>
   resource_lookup (foldl (\<lambda>r2 kv. set_resource r2 prog (fst kv) (snd kv)) r kvs) p k =
     (if p = prog
      then (case map_of (rev kvs) k of Some g \<Rightarrow> Some g | None \<Rightarrow> resource_lookup r p k)
      else resource_lookup r p k)"
proof (induction kvs arbitrary: r)
  case Nil
  then show ?case by simp
next
  case (Cons kv kvs)
  have pres: "map_of (set_resource r prog (fst kv) (snd kv)) prog \<noteq> None"
    using Cons.prems by (rule set_resource_present)
  show ?case
    using Cons.prems
    by (simp add: Cons.IH [OF pres] set_resource_lookup map_add_def split: option.splits)
qed

lemma add_prog_resources_lookup:
  "resource_lookup (add_prog_resources r (prog, pkvs)) p k =
     (if p = prog
      then (case pkvs of
              None \<Rightarrow> resource_lookup r p k
            | Some kvs \<Rightarrow>
                (case map_of (rev kvs) k of Some g \<Rightarrow> Some g | None \<Rightarrow> resource_lookup r p k))
      else resource_lookup r p k)"
proof (cases "map_of r prog = None")
  case True
  have pres: "map_of (AList.update prog [] r) prog \<noteq> None"
    by (simp add: update_conv')
  have lk: "resource_lookup (AList.update prog [] r) q k = resource_lookup r q k" for q
    using True by (cases "q = prog") (simp_all add: resource_lookup_def update_conv')
  show ?thesis
    using True
    by (simp add: add_prog_resources_def foldl_set_resource_lookup [OF pres] lk
        split: option.splits)
next
  case False
  show ?thesis
    by (simp add: add_prog_resources_def foldl_set_resource_lookup [OF False] False
        split: option.splits)
qed

lemma foldl_add_prog_resources_lookup:
  "distinct (map fst G) \<Longrightarrow>
   resource_lookup (foldl add_prog_resources r G) p k =
     (case map_of G p of
        Some (Some kvs) \<Rightarrow>
          (case map_of (rev kvs) k of Some g \<Rightarrow> Some g | None \<Rightarrow> resource_lookup r p k)
      | _ \<Rightarrow> resource_lookup r p k)"
proof (induction G arbitrary: r)
  case Nil
  then show ?case by simp
next
  case (Cons e G)
  obtain prog pkvs where e: "e = (prog, pkvs)" by (cases e)
  from Cons.prems have d: "distinct (map fst G)" and fresh: "prog \<notin> fst ` set G"
    by (auto simp: e)
  from fresh have none: "map_of G prog = None"
    by (simp add: map_of_eq_None_iff)
  have step: "resource_lookup (foldl add_prog_resources r (e # G)) p k =
      (case map_of G p of
        Some (Some kvs) \<Rightarrow>
          (case map_of (rev kvs) k of
             Some g \<Rightarrow> Some g
           | None \<Rightarrow> resource_lookup (add_prog_resources r (prog, pkvs)) p k)
      | _ \<Rightarrow> resource_lookup (add_prog_resources r (prog, pkvs)) p k)"
    using Cons.IH [OF d, of "add_prog_resources r (prog, pkvs)"] by (simp add: e)
  show ?case
  proof (cases "p = prog")
    case True
    with none have "map_of G p = None" by simp
    with step True show ?thesis
      by (simp add: e add_prog_resources_lookup split: option.splits)
  next
    case False
    with step show ?thesis
      by (simp add: e add_prog_resources_lookup split: option.splits)
  qed
qed

lemma map_of_rev_distinct:
  "distinct (map fst kvs) \<Longrightarrow> map_of (rev kvs) = map_of kvs"
  by (rule ext) (metis distinct_rev map_of_eq_None_iff map_of_eq_Some_iff not_Some_eq
      rev_map set_rev)


text \<open>
  C2 (amended). After the global resources are merged into the resources of a sample, a key
  that the global section sets for a program has the global value, whatever the sample had
  there; a key that the global section does not set for that program has the value the
  sample gave it, or none if the sample gave none.
\<close>

theorem add_global_resources_precedence:
  assumes "distinct (map fst global_resources)"
  shows "(map_of global_resources prog = Some (Some kvs) \<and> distinct (map fst kvs)
            \<and> (key, g) \<in> set kvs \<longrightarrow>
          resource_lookup (add_global_resources item_resources global_resources) prog key
            = Some g)
       \<and> ((case map_of global_resources prog of
               Some (Some kvs) \<Rightarrow> key \<notin> fst ` set kvs
             | _ \<Rightarrow> True) \<longrightarrow>
          resource_lookup (add_global_resources item_resources global_resources) prog key
            = resource_lookup (case item_resources of None \<Rightarrow> [] | Some r \<Rightarrow> r) prog key)"
proof (intro conjI impI)
  assume a: "map_of global_resources prog = Some (Some kvs) \<and> distinct (map fst kvs)
            \<and> (key, g) \<in> set kvs"
  then have "map_of kvs key = Some g" by simp
  with a have "map_of (rev kvs) key = Some g" by (simp add: map_of_rev_distinct)
  with a show "resource_lookup (add_global_resources item_resources global_resources) prog key
            = Some g"
    by (simp add: add_global_resources_def foldl_add_prog_resources_lookup [OF assms])
next
  assume a: "case map_of global_resources prog of
               Some (Some kvs) \<Rightarrow> key \<notin> fst ` set kvs
             | _ \<Rightarrow> True"
  have "map_of (rev kvs) key = None" if "key \<notin> fst ` set kvs" for kvs :: dict
    using that by (simp add: map_of_eq_None_iff)
  with a show "resource_lookup (add_global_resources item_resources global_resources) prog key
            = resource_lookup (case item_resources of None \<Rightarrow> [] | Some r \<Rightarrow> r) prog key"
    by (auto simp: add_global_resources_def foldl_add_prog_resources_lookup [OF assms]
        split: option.splits)
qed

theorem add_global_resources_precedence_witness:
  "resource_lookup
     (add_global_resources
        (Some [(''gatk'', [(''jvm_opts'', VStr ''-Xmx2g''), (''cores'', VInt 4)])])
        [(''gatk'', Some [(''jvm_opts'', VStr ''-Xmx8g'')]), (''bwa'', None)])
     ''gatk'' ''jvm_opts'' = Some (VStr ''-Xmx8g'')
   \<and> resource_lookup
     (add_global_resources
        (Some [(''gatk'', [(''jvm_opts'', VStr ''-Xmx2g''), (''cores'', VInt 4)])])
        [(''gatk'', Some [(''jvm_opts'', VStr ''-Xmx8g'')]), (''bwa'', None)])
     ''gatk'' ''cores'' = Some (VInt 4)"
proof -
  have d: "distinct (map fst [(''gatk'', Some [(''jvm_opts'', VStr ''-Xmx8g'')]),
                              (''bwa'', None :: dict option)])"
    by simp
  have h1: "map_of [(''gatk'', Some [(''jvm_opts'', VStr ''-Xmx8g'')]), (''bwa'', None)] ''gatk''
              = Some (Some [(''jvm_opts'', VStr ''-Xmx8g'')])
            \<and> distinct (map fst [(''jvm_opts'', VStr ''-Xmx8g'')])
            \<and> (''jvm_opts'', VStr ''-Xmx8g'') \<in> set [(''jvm_opts'', VStr ''-Xmx8g'')]"
    by simp
  have h2: "case map_of [(''gatk'', Some [(''jvm_opts'', VStr ''-Xmx8g'')]), (''bwa'', None)] ''gatk'' of
               Some (Some kvs) \<Rightarrow> ''cores'' \<notin> fst ` set kvs
             | _ \<Rightarrow> True"
    by simp
  have 1: "resource_lookup
     (add_global_resources
        (Some [(''gatk'', [(''jvm_opts'', VStr ''-Xmx2g''), (''cores'', VInt 4)])])
        [(''gatk'', Some [(''jvm_opts'', VStr ''-Xmx8g'')]), (''bwa'', None)])
     ''gatk'' ''jvm_opts'' = Some (VStr ''-Xmx8g'')"
    using add_global_resources_precedence [OF d, THEN conjunct1, rule_format, OF h1] .
  have 2: "resource_lookup
     (add_global_resources
        (Some [(''gatk'', [(''jvm_opts'', VStr ''-Xmx2g''), (''cores'', VInt 4)])])
        [(''gatk'', Some [(''jvm_opts'', VStr ''-Xmx8g'')]), (''bwa'', None)])
     ''gatk'' ''cores'' = Some (VInt 4)"
    using add_global_resources_precedence [OF d, THEN conjunct2, rule_format, OF h2,
        of "Some [(''gatk'', [(''jvm_opts'', VStr ''-Xmx2g''), (''cores'', VInt 4)])]"]
    by (simp add: resource_lookup_def)
  from 1 2 show ?thesis by (rule conjI)
qed

text \<open>
  C2 as stated fails: the sample sets \<^verbatim>\<open>jvm_opts\<close> for \<^verbatim>\<open>gatk\<close>, the global section
  sets it too, and the merged value is the global one.
\<close>

theorem add_global_resources_counterexample:
  "resource_lookup [(''gatk'', [(''jvm_opts'', VStr ''-Xmx2g'')])] ''gatk'' ''jvm_opts''
     = Some (VStr ''-Xmx2g'')
   \<and> resource_lookup
       (add_global_resources (Some [(''gatk'', [(''jvm_opts'', VStr ''-Xmx2g'')])])
          [(''gatk'', Some [(''jvm_opts'', VStr ''-Xmx8g'')])])
       ''gatk'' ''jvm_opts''
     = Some (VStr ''-Xmx8g'')"
  by (simp add: resource_lookup_def add_global_resources_def add_prog_resources_def
      set_resource_def)

subsection \<open>Idempotence of the defaults\<close>

lemma default_keys: "map fst (algorithm_defaults a) = map fst (algorithm_defaults VNone)"
  by (simp add: algorithm_defaults_def)

lemma convert_disjoint: "k \<in> set convert_to_list \<Longrightarrow> k \<notin> set convert_to_single"
  by (auto simp: convert_to_list_def convert_to_single_def)

lemma foldl_add_default_present:
  "\<forall>kv\<in>set defs. map_of a (fst kv) \<noteq> None \<Longrightarrow> foldl add_default a defs = a"
  by (induction defs) (auto simp: add_default_def)

lemma listify_inner_id:
  "\<not> truthy v \<or> is_list v \<or> is_dict v \<Longrightarrow> listify_inner v = v"
  by (auto simp: listify_inner_def)

lemma listify_dict_id:
  assumes "inner_listified inner"
  shows "listify_dict inner = inner"
proof -
  from assms have d: "distinct (map fst inner)"
    and v: "\<forall>kv\<in>set inner. \<not> truthy (snd kv) \<or> is_list (snd kv) \<or> is_dict (snd kv)"
    by (simp_all add: inner_listified_def list_all_iff)
  have "listify_dict inner = map (\<lambda>kv. (fst kv, listify_inner (snd kv))) inner"
    unfolding listify_dict_def
    using foldl_update_fresh [OF d, of "[]" listify_inner] by simp
  also have "\<dots> = map (\<lambda>kv. kv) inner"
    using v by (intro map_cong refl) (simp add: listify_inner_id)
  finally show ?thesis by simp
qed

lemma coerce_entry_normalized:
  assumes "map_of d k = Some v" and "entry_normalized (k, v)"
  shows "coerce_entry d (k, v) = Inr d"
proof (cases "k \<in> set convert_to_list")
  case True
  with assms(2) have lf: "list_form v" by (simp add: entry_normalized_def)
  show ?thesis
  proof (cases v)
    case (VDict inner)
    with lf have "listify_dict inner = inner" by (simp add: listify_dict_id)
    with True VDict assms(1) show ?thesis
      by (simp add: coerce_entry_def update_triv)
  qed (use True lf in \<open>simp_all add: coerce_entry_def\<close>)
next
  case False
  show ?thesis
  proof (cases "k \<in> set convert_to_single")
    case True
    with assms(2) have "single_form v" by (simp add: entry_normalized_def)
    with True False show ?thesis
      by (cases v) (auto simp: coerce_entry_def single_form_def)
  next
    case nosingle: False
    with False show ?thesis by (simp add: coerce_entry_def)
  qed
qed

lemma coerce_entries_fixed:
  "\<forall>kv\<in>set kvs. coerce_entry d kv = Inr d \<Longrightarrow> coerce_entries d kvs = Inr d"
  by (induction kvs) simp_all

lemma add_algorithm_defaults_fixed:
  assumes "algorithm_normalized d"
  shows "add_algorithm_defaults (VDict d) = Inr d"
proof -
  from assms have dist: "distinct (map fst d)"
    unfolding algorithm_normalized_def by blast
  from assms have keys: "\<forall>k\<in>set (map fst (algorithm_defaults VNone)). map_of d k \<noteq> None"
    unfolding algorithm_normalized_def list_all_iff by blast
  from assms have norm: "\<forall>kv\<in>set d. entry_normalized kv"
    unfolding algorithm_normalized_def list_all_iff by blast
  have defs: "foldl add_default d (algorithm_defaults a) = d" for a
  proof (rule foldl_add_default_present)
    show "\<forall>kv\<in>set (algorithm_defaults a). map_of d (fst kv) \<noteq> None"
      using keys default_keys [of a] by (metis (no_types, lifting) image_eqI list.set_map)
  qed
  have "coerce_entry d kv = Inr d" if "kv \<in> set d" for kv
  proof -
    obtain k v where kv: "kv = (k, v)" by (cases kv)
    with that dist have "map_of d k = Some v" by simp
    moreover from norm that kv have "entry_normalized (k, v)" by blast
    ultimately show ?thesis unfolding kv by (rule coerce_entry_normalized)
  qed
  then have loop: "coerce_entries d d = Inr d"
    by (simp add: coerce_entries_fixed)
  show ?thesis
  proof (cases "d = []")
    case True
    have "''archive'' \<in> set (map fst (algorithm_defaults VNone))"
      by (simp add: algorithm_defaults_def)
    with keys have "map_of d ''archive'' \<noteq> None" by blast
    with True show ?thesis by simp
  next
    case False
    then show ?thesis
      by (simp add: add_algorithm_defaults_def Let_def defs loop)
  qed
qed


lemma set_update_subset: "set (AList.update k v al) \<subseteq> insert (k, v) (set al)"
  by (induction al) auto

lemma add_default_distinct:
  "distinct (map fst a) \<Longrightarrow> distinct (map fst (foldl add_default a defs))"
  by (induction defs arbitrary: a) (simp_all add: add_default_def distinct_update)

lemma add_default_keeps:
  "map_of a k \<noteq> None \<Longrightarrow> map_of (foldl add_default a defs) k \<noteq> None"
  by (induction defs arbitrary: a) (auto simp: add_default_def update_conv')

lemma add_default_present:
  "kv \<in> set defs \<Longrightarrow> map_of (foldl add_default a defs) (fst kv) \<noteq> None"
proof (induction defs arbitrary: a)
  case Nil
  then show ?case by simp
next
  case (Cons e defs)
  show ?case
  proof (cases "kv = e")
    case True
    have "map_of (add_default a e) (fst e) \<noteq> None"
      by (auto simp: add_default_def update_conv')
    then have "map_of (foldl add_default (add_default a e) defs) (fst e) \<noteq> None"
      by (rule add_default_keeps)
    with True show ?thesis by simp
  next
    case False
    with Cons.prems have "kv \<in> set defs" by simp
    then show ?thesis by (simp add: Cons.IH)
  qed
qed

lemma add_default_subset: "set (foldl add_default a defs) \<subseteq> set a \<union> set defs"
proof (induction defs arbitrary: a)
  case Nil
  then show ?case by simp
next
  case (Cons e defs)
  have "set (add_default a e) \<subseteq> insert e (set a)"
    using set_update_subset [of "fst e" "snd e" a] by (auto simp: add_default_def)
  with Cons.IH [of "add_default a e"] show ?case by auto
qed

lemma listify_inner_form:
  "\<not> truthy (listify_inner v) \<or> is_list (listify_inner v) \<or> is_dict (listify_inner v)"
  by (simp add: listify_inner_def)

lemma foldl_listify_inv:
  "inner_listified acc \<Longrightarrow>
   inner_listified
     (foldl (\<lambda>new kv. AList.update (fst kv) (listify_inner (snd kv)) new) acc kvs)"
proof (induction kvs arbitrary: acc)
  case Nil
  then show ?case by simp
next
  case (Cons kv kvs)
  have "inner_listified (AList.update (fst kv) (listify_inner (snd kv)) acc)"
    using Cons.prems set_update_subset [of "fst kv" "listify_inner (snd kv)" acc]
      listify_inner_form [of "snd kv"]
    unfolding inner_listified_def list_all_iff
    by (auto simp: distinct_update)
  then show ?case by (simp add: Cons.IH)
qed

lemma listify_dict_form: "inner_listified (listify_dict inner)"
  unfolding listify_dict_def
  by (rule foldl_listify_inv) (simp add: inner_listified_def)

lemma entry_normalized_list:
  "k \<in> set convert_to_list \<Longrightarrow> list_form w \<Longrightarrow> entry_normalized (k, w)"
  by (simp add: entry_normalized_def convert_disjoint)

lemma coerce_entry_step:
  assumes run: "coerce_entry acc (k, v) = Inr acc'"
    and cur: "map_of acc k = Some v"
    and plain: "k \<in> set convert_to_single \<longrightarrow>
                  (case v of VList [x] \<Rightarrow> single_form x | _ \<Rightarrow> True)"
  shows "\<exists>w. entry_normalized (k, w) \<and> acc' = AList.update k w acc"
proof (cases "k \<in> set convert_to_list")
  case inlist: True
  then have ns: "k \<notin> set convert_to_single" by (rule convert_disjoint)
  have same: "AList.update k v acc = acc" using cur by (rule update_triv)
  show ?thesis
  proof (cases v)
    case VNone
    with run inlist have "acc' = AList.update k (VList []) acc"
      by (simp add: coerce_entry_def)
    moreover have "entry_normalized (k, VList [])"
      using ns by (simp add: entry_normalized_list [OF inlist])
    ultimately show ?thesis by blast
  next
    case (VBool b)
    show ?thesis
    proof (cases b)
      case True
      with run inlist VBool have "acc' = AList.update k (VList [v]) acc"
        by (simp add: coerce_entry_def)
      moreover have "entry_normalized (k, VList [v])"
        using ns by (simp add: entry_normalized_list [OF inlist])
      ultimately show ?thesis by blast
    next
      case False
      with run inlist VBool have "acc' = acc"
        by (simp add: coerce_entry_def)
      with same have "acc' = AList.update k v acc" by simp
      moreover have "entry_normalized (k, v)"
        using False VBool ns  by (simp add: entry_normalized_list [OF inlist])
      ultimately show ?thesis by blast
    qed
  next
    case (VInt i)
    show ?thesis
    proof (cases "i = 0")
      case False
      with run inlist VInt have "acc' = AList.update k (VList [v]) acc"
        by (simp add: coerce_entry_def)
      moreover have "entry_normalized (k, VList [v])"
        using ns by (simp add: entry_normalized_list [OF inlist])
      ultimately show ?thesis by blast
    next
      case zero: True
      with run inlist VInt have "acc' = acc"
        by (simp add: coerce_entry_def)
      with same have "acc' = AList.update k v acc" by simp
      moreover have "entry_normalized (k, v)"
        using zero VInt ns  by (simp add: entry_normalized_list [OF inlist])
      ultimately show ?thesis by blast
    qed
  next
    case (VStr s)
    show ?thesis
    proof (cases "s = []")
      case False
      with run inlist VStr have "acc' = AList.update k (VList [v]) acc"
        by (simp add: coerce_entry_def)
      moreover have "entry_normalized (k, VList [v])"
        using ns by (simp add: entry_normalized_list [OF inlist])
      ultimately show ?thesis by blast
    next
      case empty: True
      with run inlist VStr have "acc' = acc"
        by (simp add: coerce_entry_def)
      with same have "acc' = AList.update k v acc" by simp
      moreover have "entry_normalized (k, v)"
        using empty VStr ns  by (simp add: entry_normalized_list [OF inlist])
      ultimately show ?thesis by blast
    qed
  next
    case (VList xs)
    with run inlist have "acc' = acc"
      by (simp add: coerce_entry_def)
    with same have "acc' = AList.update k v acc" by simp
    moreover have "entry_normalized (k, v)"
      using VList ns  by (simp add: entry_normalized_list [OF inlist])
    ultimately show ?thesis by blast
  next
    case (VDict inner)
    show ?thesis
    proof (cases "inner = []")
      case False
      with run inlist VDict have "acc' = AList.update k (VDict (listify_dict inner)) acc"
        by (simp add: coerce_entry_def)
      moreover have "entry_normalized (k, VDict (listify_dict inner))"
        using ns  by (simp add: entry_normalized_list [OF inlist] listify_dict_form)
      ultimately show ?thesis by blast
    next
      case empty: True
      with run inlist VDict have "acc' = acc"
        by (simp add: coerce_entry_def)
      with same have "acc' = AList.update k v acc" by simp
      moreover have "entry_normalized (k, v)"
        using empty VDict ns  by (simp add: entry_normalized_list [OF inlist] inner_listified_def)
      ultimately show ?thesis by blast
    qed
  qed
next
  case nolist: False
  have same: "AList.update k v acc = acc" using cur by (rule update_triv)
  show ?thesis
  proof (cases "k \<in> set convert_to_single")
    case False
    with run nolist have "acc' = acc"
      by (simp add: coerce_entry_def)
    with same have "acc' = AList.update k v acc" by simp
    moreover have "entry_normalized (k, v)"
      using False nolist by (simp add: entry_normalized_def)
    ultimately show ?thesis by blast
  next
    case True
    show ?thesis
    proof (cases "truthy v \<and> \<not> is_basestring v")
      case False
      with run nolist True have "acc' = acc"
        by (auto simp: coerce_entry_def)
      with same have "acc' = AList.update k v acc" by simp
      moreover have "entry_normalized (k, v)"
        using False nolist True by (auto simp: entry_normalized_def single_form_def)
      ultimately show ?thesis by blast
    next
      case odd: True
      with run nolist \<open>k \<in> set convert_to_single\<close> obtain x where x: "v = VList [x]"
        by (auto simp: coerce_entry_def split: val.splits list.splits)
      with run nolist \<open>k \<in> set convert_to_single\<close> have "acc' = AList.update k x acc"
        by (simp add: coerce_entry_def)
      moreover from plain x \<open>k \<in> set convert_to_single\<close> have "single_form x" by simp
      then have "entry_normalized (k, x)"
        using nolist by (simp add: entry_normalized_def)
      ultimately show ?thesis by blast
    qed
  qed
qed

lemma coerce_entries_normalizes:
  assumes "coerce_entries acc kvs = Inr out"
    and "distinct (map fst acc)" and "distinct (map fst kvs)"
    and "\<forall>kv\<in>set kvs. map_of acc (fst kv) = Some (snd kv)"
    and "\<forall>kv\<in>set kvs. fst kv \<in> set convert_to_single \<longrightarrow>
           (case snd kv of VList [x] \<Rightarrow> single_form x | _ \<Rightarrow> True)"
    and "\<forall>k w. map_of acc k = Some w \<longrightarrow> k \<notin> fst ` set kvs \<longrightarrow> entry_normalized (k, w)"
  shows "distinct (map fst out) \<and> dom (map_of out) = dom (map_of acc)
         \<and> (\<forall>k w. map_of out k = Some w \<longrightarrow> entry_normalized (k, w))"
  using assms
proof (induction kvs arbitrary: acc)
  case Nil
  then show ?case by simp
next
  case (Cons kv kvs)
  obtain k v where kv: "kv = (k, v)" by (cases kv)
  from Cons.prems(1) obtain acc' where
    step: "coerce_entry acc (k, v) = Inr acc'" and rest: "coerce_entries acc' kvs = Inr out"
    by (auto simp: kv split: sum.splits)
  from Cons.prems(4) have cur: "map_of acc k = Some v" by (simp add: kv)
  from Cons.prems(5) have plain:
    "k \<in> set convert_to_single \<longrightarrow> (case v of VList [x] \<Rightarrow> single_form x | _ \<Rightarrow> True)"
    by (simp add: kv)
  from coerce_entry_step [OF step cur plain] obtain w where
    w: "entry_normalized (k, w)" and acc': "acc' = AList.update k w acc"
    by blast
  have m: "map_of acc' = (map_of acc)(k \<mapsto> w)"
    by (simp add: acc' update_conv')
  from Cons.prems(3) have fresh: "k \<notin> fst ` set kvs" and dk: "distinct (map fst kvs)"
    by (auto simp: kv)
  have 1: "distinct (map fst acc')"
    using Cons.prems(2) by (simp add: acc' distinct_update)
  have 2: "\<forall>kv'\<in>set kvs. map_of acc' (fst kv') = Some (snd kv')"
  proof
    fix kv' assume in': "kv' \<in> set kvs"
    with fresh have "fst kv' \<noteq> k" by force
    moreover from in' Cons.prems(4) have "map_of acc (fst kv') = Some (snd kv')" by simp
    ultimately show "map_of acc' (fst kv') = Some (snd kv')" by (simp add: m)
  qed
  have 3: "\<forall>kv'\<in>set kvs. fst kv' \<in> set convert_to_single \<longrightarrow>
           (case snd kv' of VList [x] \<Rightarrow> single_form x | _ \<Rightarrow> True)"
    using Cons.prems(5) by simp
  have 4: "\<forall>k' w'. map_of acc' k' = Some w' \<longrightarrow> k' \<notin> fst ` set kvs \<longrightarrow> entry_normalized (k', w')"
  proof (intro allI impI)
    fix k' w' assume a: "map_of acc' k' = Some w'" and b: "k' \<notin> fst ` set kvs"
    show "entry_normalized (k', w')"
    proof (cases "k' = k")
      case True
      with a m have "w' = w" by simp
      with True w show ?thesis by simp
    next
      case False
      with a m have "map_of acc k' = Some w'" by simp
      moreover from False b have "k' \<notin> fst ` set (kv # kvs)" by (simp add: kv)
      ultimately show ?thesis using Cons.prems(6) by blast
    qed
  qed
  from Cons.IH [OF rest 1 dk 2 3 4]
  have "distinct (map fst out)" and d: "dom (map_of out) = dom (map_of acc')"
    and n: "\<forall>k w. map_of out k = Some w \<longrightarrow> entry_normalized (k, w)"
    by blast+
  moreover have "dom (map_of acc') = dom (map_of acc)"
    using cur by (auto simp: m)
  ultimately show ?case by simp
qed

lemma defaults_not_single:
  "kv \<in> set (algorithm_defaults a) \<Longrightarrow> fst kv \<notin> set convert_to_single"
  by (auto simp: algorithm_defaults_def convert_to_single_def)

lemma add_algorithm_defaults_normalizes:
  assumes run: "add_algorithm_defaults algorithm = Inr out"
    and plain: "single_items_plain algorithm"
  shows "algorithm_normalized out"
proof -
  define a0 where "a0 = (if \<not> truthy algorithm then [] else case algorithm of VDict d \<Rightarrow> d | _ \<Rightarrow> [])"
  define defaults where
    "defaults = algorithm_defaults (case map_of a0 ''aligner'' of None \<Rightarrow> VNone | Some v \<Rightarrow> v)"
  define a1 where "a1 = foldl add_default a0 defaults"
  have loop: "coerce_entries a1 a1 = Inr out"
    using run unfolding a1_def defaults_def a0_def
    by (cases algorithm) (auto simp: add_algorithm_defaults_def Let_def split: if_splits)
  have d0: "distinct (map fst a0)"
    using plain unfolding a0_def
    by (cases algorithm) (auto simp: single_items_plain_def)
  have p0: "\<forall>kv\<in>set a0. fst kv \<in> set convert_to_single \<longrightarrow>
              (case snd kv of VList [x] \<Rightarrow> single_form x | _ \<Rightarrow> True)"
    using plain unfolding a0_def
    by (cases algorithm) (auto simp: single_items_plain_def list_all_iff)
  have d1: "distinct (map fst a1)"
    unfolding a1_def using d0 by (rule add_default_distinct)
  have cur: "\<forall>kv\<in>set a1. map_of a1 (fst kv) = Some (snd kv)"
    using d1 by simp
  have p1: "\<forall>kv\<in>set a1. fst kv \<in> set convert_to_single \<longrightarrow>
              (case snd kv of VList [x] \<Rightarrow> single_form x | _ \<Rightarrow> True)"
  proof
    fix kv assume "kv \<in> set a1"
    then have "kv \<in> set a0 \<or> kv \<in> set defaults"
      using add_default_subset [of a0 defaults] unfolding a1_def by blast
    then show "fst kv \<in> set convert_to_single \<longrightarrow>
              (case snd kv of VList [x] \<Rightarrow> single_form x | _ \<Rightarrow> True)"
    proof
      assume "kv \<in> set a0" with p0 show ?thesis by blast
    next
      assume "kv \<in> set defaults"
      then have "fst kv \<notin> set convert_to_single"
        unfolding defaults_def by (rule defaults_not_single)
      then show ?thesis by simp
    qed
  qed
  have vac: "\<forall>k w. map_of a1 k = Some w \<longrightarrow> k \<notin> fst ` set a1 \<longrightarrow> entry_normalized (k, w)"
    by (auto dest: map_of_SomeD intro: rev_image_eqI)
  from coerce_entries_normalizes [OF loop d1 d1 cur p1 vac]
  have dout: "distinct (map fst out)" and dom: "dom (map_of out) = dom (map_of a1)"
    and norm: "\<forall>k w. map_of out k = Some w \<longrightarrow> entry_normalized (k, w)"
    by blast+
  have keys: "map_of out k \<noteq> None" if "k \<in> set (map fst (algorithm_defaults VNone))" for k
  proof -
    have "map fst defaults = map fst (algorithm_defaults VNone)"
      unfolding defaults_def by (rule default_keys)
    with that have "k \<in> set (map fst defaults)" by simp
    then obtain kv where "kv \<in> set defaults" "fst kv = k" by auto
    then have "map_of a1 k \<noteq> None"
      unfolding a1_def using add_default_present [of kv defaults a0] by simp
    with dom show ?thesis by (metis domIff)
  qed
  have entries: "entry_normalized kv" if "kv \<in> set out" for kv
  proof -
    from that dout have "map_of out (fst kv) = Some (snd kv)" by simp
    with norm have "entry_normalized (fst kv, snd kv)" by blast
    then show ?thesis by simp
  qed
  show ?thesis
    unfolding algorithm_normalized_def list_all_iff
    using dout keys entries by blast
qed

text \<open>
  C8 (amended). \<^verbatim>\<open>_file_to_abs\<close> returns an absolute path unchanged and leaves the file
  system alone. \<^verbatim>\<open>_add_algorithm_defaults\<close> returns a normalized algorithm section
  unchanged: one that has every default key, a list form under every key of
  \<^verbatim>\<open>convert_to_list\<close> and a string or a falsy value under every key of
  \<^verbatim>\<open>convert_to_single\<close>. A second run over the result of a first run returns that
  result, provided the first run was given no key of \<^verbatim>\<open>convert_to_single\<close> with a
  one-element list that holds a truthy value other than a string.
\<close>

theorem normalization_idempotent:
  "(isabs env x \<longrightarrow> file_to_abs env fs (Some x) dnames makedir = (Inr (Some x), fs))
   \<and> (algorithm_normalized d \<longrightarrow> add_algorithm_defaults (VDict d) = Inr d)
   \<and> (add_algorithm_defaults algorithm = Inr out \<and> single_items_plain algorithm \<longrightarrow>
        add_algorithm_defaults (VDict out) = Inr out)"
proof (intro conjI impI)
  assume "isabs env x"
  then show "file_to_abs env fs (Some x) dnames makedir = (Inr (Some x), fs)"
    by (simp add: file_to_abs_def)
next
  assume "algorithm_normalized d"
  then show "add_algorithm_defaults (VDict d) = Inr d"
    by (rule add_algorithm_defaults_fixed)
next
  assume "add_algorithm_defaults algorithm = Inr out \<and> single_items_plain algorithm"
  then have "algorithm_normalized out"
    using add_algorithm_defaults_normalizes by blast
  then show "add_algorithm_defaults (VDict out) = Inr out"
    by (rule add_algorithm_defaults_fixed)
qed

theorem normalization_idempotent_witness:
  "file_to_abs example_env [] (Some ''/data/a.fq'') [Some ''/work''] False
     = (Inr (Some ''/data/a.fq''), [])
   \<and> add_algorithm_defaults
       (VDict [(''archive'', VNone),
          (''tools_off'', VList [VStr ''vqsr'']), (''tools_on'', VList []),
          (''qc'', VList []), (''trim_reads'', VBool False),
          (''adapters'', VList []), (''effects'', VStr ''snpeff''),
          (''quality_format'', VStr ''standard''),
          (''align_split_size'', VNone), (''bam_clean'', VBool False),
          (''nomap_split_size'', VInt 250), (''nomap_split_targets'', VInt 200),
          (''mark_duplicates'', VBool False), (''coverage_interval'', VNone),
          (''recalibrate'', VBool False), (''realign'', VBool False),
          (''variant_regions'', VNone), (''validate'', VNone),
          (''validate_regions'', VNone), (''variantcaller'', VBool False),
          (''validate_method'', VStr ''rtg'')])
     = Inr [(''archive'', VNone),
          (''tools_off'', VList [VStr ''vqsr'']), (''tools_on'', VList []),
          (''qc'', VList []), (''trim_reads'', VBool False),
          (''adapters'', VList []), (''effects'', VStr ''snpeff''),
          (''quality_format'', VStr ''standard''),
          (''align_split_size'', VNone), (''bam_clean'', VBool False),
          (''nomap_split_size'', VInt 250), (''nomap_split_targets'', VInt 200),
          (''mark_duplicates'', VBool False), (''coverage_interval'', VNone),
          (''recalibrate'', VBool False), (''realign'', VBool False),
          (''variant_regions'', VNone), (''validate'', VNone),
          (''validate_regions'', VNone), (''variantcaller'', VBool False),
          (''validate_method'', VStr ''rtg'')]
   \<and> add_algorithm_defaults
       (VDict [(''aligner'', VStr ''bwa''), (''variantcaller'', VList [VStr ''gatk'']),
          (''indelcaller'', VStr ''gatk''), (''archive'', VNone),
          (''tools_off'', VList []), (''tools_on'', VList []),
          (''qc'', VList []), (''trim_reads'', VBool False),
          (''adapters'', VList []), (''effects'', VStr ''snpeff''),
          (''quality_format'', VStr ''standard''),
          (''align_split_size'', VNone), (''bam_clean'', VBool False),
          (''nomap_split_size'', VInt 250), (''nomap_split_targets'', VInt 200),
          (''mark_duplicates'', VBool True), (''coverage_interval'', VNone),
          (''recalibrate'', VBool False), (''realign'', VBool False),
          (''variant_regions'', VNone), (''validate'', VNone),
          (''validate_regions'', VNone)])
     = Inr [(''aligner'', VStr ''bwa''), (''variantcaller'', VList [VStr ''gatk'']),
          (''indelcaller'', VStr ''gatk''), (''archive'', VNone),
          (''tools_off'', VList []), (''tools_on'', VList []),
          (''qc'', VList []), (''trim_reads'', VBool False),
          (''adapters'', VList []), (''effects'', VStr ''snpeff''),
          (''quality_format'', VStr ''standard''),
          (''align_split_size'', VNone), (''bam_clean'', VBool False),
          (''nomap_split_size'', VInt 250), (''nomap_split_targets'', VInt 200),
          (''mark_duplicates'', VBool True), (''coverage_interval'', VNone),
          (''recalibrate'', VBool False), (''realign'', VBool False),
          (''variant_regions'', VNone), (''validate'', VNone),
          (''validate_regions'', VNone)]"
proof -
  have a: "isabs example_env ''/data/a.fq''"
    by (simp add: example_env_def)
  have n: "algorithm_normalized
     [(''archive'', VNone),
          (''tools_off'', VList [VStr ''vqsr'']), (''tools_on'', VList []),
          (''qc'', VList []), (''trim_reads'', VBool False),
          (''adapters'', VList []), (''effects'', VStr ''snpeff''),
          (''quality_format'', VStr ''standard''),
          (''align_split_size'', VNone), (''bam_clean'', VBool False),
          (''nomap_split_size'', VInt 250), (''nomap_split_targets'', VInt 200),
          (''mark_duplicates'', VBool False), (''coverage_interval'', VNone),
          (''recalibrate'', VBool False), (''realign'', VBool False),
          (''variant_regions'', VNone), (''validate'', VNone),
          (''validate_regions'', VNone), (''variantcaller'', VBool False),
          (''validate_method'', VStr ''rtg'')]"
    by code_simp
  have r: "add_algorithm_defaults
     (VDict [(''aligner'', VStr ''bwa''), (''variantcaller'', VStr ''gatk''),
             (''indelcaller'', VList [VStr ''gatk''])])
   = Inr [(''aligner'', VStr ''bwa''), (''variantcaller'', VList [VStr ''gatk'']),
          (''indelcaller'', VStr ''gatk''), (''archive'', VNone),
          (''tools_off'', VList []), (''tools_on'', VList []),
          (''qc'', VList []), (''trim_reads'', VBool False),
          (''adapters'', VList []), (''effects'', VStr ''snpeff''),
          (''quality_format'', VStr ''standard''),
          (''align_split_size'', VNone), (''bam_clean'', VBool False),
          (''nomap_split_size'', VInt 250), (''nomap_split_targets'', VInt 200),
          (''mark_duplicates'', VBool True), (''coverage_interval'', VNone),
          (''recalibrate'', VBool False), (''realign'', VBool False),
          (''variant_regions'', VNone), (''validate'', VNone),
          (''validate_regions'', VNone)]
   \<and> single_items_plain
     (VDict [(''aligner'', VStr ''bwa''), (''variantcaller'', VStr ''gatk''),
             (''indelcaller'', VList [VStr ''gatk''])])"
    by code_simp
  from normalization_idempotent [THEN conjunct1, rule_format, OF a]
       normalization_idempotent [THEN conjunct2, THEN conjunct1, rule_format, OF n]
       normalization_idempotent [THEN conjunct2, THEN conjunct2, rule_format, OF r]
  show ?thesis by (intro conjI)
qed

text \<open>
  C8 as stated fails: the first run unwraps \<^verbatim>\<open>indelcaller: [true]\<close> to \<^verbatim>\<open>True\<close>; its
  result has every default and every list-coercible value in list form, and the second run
  over it raises the error for \<^verbatim>\<open>indelcaller\<close>.
\<close>

theorem add_algorithm_defaults_counterexample:
  "add_algorithm_defaults (VDict [(''indelcaller'', VList [VBool True])])
   = Inr [(''indelcaller'', VBool True), (''archive'', VNone),
      (''tools_off'', VList []), (''tools_on'', VList []),
      (''qc'', VList []), (''trim_reads'', VBool False),
      (''adapters'', VList []), (''effects'', VStr ''snpeff''),
      (''quality_format'', VStr ''standard''),
      (''align_split_size'', VNone), (''bam_clean'', VBool False),
      (''nomap_split_size'', VInt 250), (''nomap_split_targets'', VInt 200),
      (''mark_duplicates'', VBool False), (''coverage_interval'', VNone),
      (''recalibrate'', VBool False), (''realign'', VBool False),
      (''variant_regions'', VNone), (''validate'', VNone),
      (''validate_regions'', VNone)]
   \<and> add_algorithm_defaults
      (VDict [(''indelcaller'', VBool True), (''archive'', VNone),
      (''tools_off'', VList []), (''tools_on'', VList []),
      (''qc'', VList []), (''trim_reads'', VBool False),
      (''adapters'', VList []), (''effects'', VStr ''snpeff''),
      (''quality_format'', VStr ''standard''),
      (''align_split_size'', VNone), (''bam_clean'', VBool False),
      (''nomap_split_size'', VInt 250), (''nomap_split_targets'', VInt 200),
      (''mark_duplicates'', VBool False), (''coverage_interval'', VNone),
      (''recalibrate'', VBool False), (''realign'', VBool False),
      (''variant_regions'', VNone), (''validate'', VNone),
      (''validate_regions'', VNone)])
   = Inl (ValueError_SingleItem ''indelcaller'' (VBool True))"
  by code_simp

end
